theory Spec2Isabelle
  imports Complex_Main "HOL-Library.Sublist" "HOL-Library.AList"
begin

section \<open>JavaScript values\<close>

text \<open>
  The two libraries (\<^verbatim>\<open>gadget.js\<close>, the host bridge, and \<^verbatim>\<open>cms-api.js\<close>, the
  API client) exchange JSON-like values.  A number is an integer, one of the two infinities
  or NaN (fractions are not modelled); an object is the list of its own properties in
  insertion order.  \<open>JUndef\<close> is \<^verbatim>\<open>undefined\<close>, also the value of an absent property.
\<close>

datatype jsnum = Fin int | PosInfinity | NegInfinity | NaN

datatype jsval =
    JUndef
  | JNull
  | JBool bool
  | JNum jsnum
  | JStr string
  | JArr "jsval list"
  | JObj "(string \<times> jsval) list"

type_synonym obj = "(string \<times> jsval) list"

text \<open>\<^verbatim>\<open>!!v\<close>: the falsy values are undefined, null, false, 0, NaN and the empty string.\<close>

fun truthy :: "jsval \<Rightarrow> bool" where
  "truthy JUndef = False"
| "truthy JNull = False"
| "truthy (JBool b) = b"
| "truthy (JNum (Fin n)) = (n \<noteq> 0)"
| "truthy (JNum NaN) = False"
| "truthy (JNum _) = True"
| "truthy (JStr s) = (s \<noteq> [])"
| "truthy (JArr _) = True"
| "truthy (JObj _) = True"

text \<open>\<^verbatim>\<open>a || b\<close> and \<^verbatim>\<open>a ?? b\<close>.\<close>

definition js_or :: "jsval \<Rightarrow> jsval \<Rightarrow> jsval" where
  "js_or a b = (if truthy a then a else b)"

definition nullish :: "'a option \<Rightarrow> 'a \<Rightarrow> 'a" where
  "nullish a b = (case a of None \<Rightarrow> b | Some v \<Rightarrow> v)"

text \<open>\<^verbatim>\<open>typeof v === "string"\<close>, \<^verbatim>\<open>typeof v === "number"\<close>.\<close>

fun is_string :: "jsval \<Rightarrow> bool" where
  "is_string (JStr _) = True"
| "is_string _ = False"

fun is_number :: "jsval \<Rightarrow> bool" where
  "is_number (JNum _) = True"
| "is_number _ = False"

text \<open>
  Reading and writing a property of an object.  A written key keeps its place when it
  exists and is appended otherwise, as in JavaScript.  An object has each key once; should
  a list name a key twice, its first entry is the property.
\<close>

definition obj_get :: "obj \<Rightarrow> string \<Rightarrow> jsval" where
  "obj_get ob k = (case map_of ob k of None \<Rightarrow> JUndef | Some v \<Rightarrow> v)"

definition obj_set :: "obj \<Rightarrow> string \<Rightarrow> jsval \<Rightarrow> obj" where
  "obj_set ob k v = AList.update k v ob"

text \<open>\<^verbatim>\<open>v.k\<close> for a value that is not null or undefined: only objects carry the
  properties read here (\<^verbatim>\<open>code\<close>, \<^verbatim>\<open>callback\<close>, \<^verbatim>\<open>name\<close>, \<^verbatim>\<open>payload\<close>).\<close>

fun js_prop :: "jsval \<Rightarrow> string \<Rightarrow> jsval" where
  "js_prop (JObj kvs) k = obj_get kvs k"
| "js_prop _ k = JUndef"

subsection \<open>Strings\<close>

text \<open>\<^verbatim>\<open>s.includes(t)\<close>: \<open>t\<close> occurs in \<open>s\<close> as a contiguous substring.\<close>

fun str_includes :: "string \<Rightarrow> string \<Rightarrow> bool" where
  "str_includes [] t = (t = [])"
| "str_includes (c # s) t = (prefix t (c # s) \<or> str_includes s t)"

definition digit_char :: "nat \<Rightarrow> char" where
  "digit_char d = (if d = 0 then CHR ''0'' else if d = 1 then CHR ''1''
     else if d = 2 then CHR ''2'' else if d = 3 then CHR ''3''
     else if d = 4 then CHR ''4'' else if d = 5 then CHR ''5''
     else if d = 6 then CHR ''6'' else if d = 7 then CHR ''7''
     else if d = 8 then CHR ''8'' else CHR ''9'')"

function show_nat :: "nat \<Rightarrow> string" where
  "show_nat n = (if n < 10 then [digit_char n] else show_nat (n div 10) @ [digit_char (n mod 10)])"
  by pat_completeness auto
termination
  by (relation "measure (\<lambda>n. n)") auto

declare show_nat.simps [simp del]

definition show_num :: "jsnum \<Rightarrow> string" where
  "show_num n = (case n of
       Fin i \<Rightarrow> (if i < 0 then CHR ''-'' # show_nat (nat (- i)) else show_nat (nat i))
     | PosInfinity \<Rightarrow> ''Infinity''
     | NegInfinity \<Rightarrow> ''-Infinity''
     | NaN \<Rightarrow> ''NaN'')"

fun join :: "string \<Rightarrow> string list \<Rightarrow> string" where
  "join sep [] = []"
| "join sep [x] = x"
| "join sep (x # y # ys) = x @ sep @ join sep (y # ys)"

text \<open>\<^verbatim>\<open>String(v)\<close>, as a template literal \<^verbatim>\<open>`${v}`\<close> applies it.  In an array, null and
  undefined elements print as the empty string.\<close>

fun to_string :: "jsval \<Rightarrow> string" where
  "to_string JUndef = ''undefined''"
| "to_string JNull = ''null''"
| "to_string (JBool b) = (if b then ''true'' else ''false'')"
| "to_string (JNum n) = show_num n"
| "to_string (JStr s) = s"
| "to_string (JArr xs) =
     join '','' (map (\<lambda>x. if x = JUndef \<or> x = JNull then [] else to_string x) xs)"
| "to_string (JObj kvs) = ''[object Object]''"

section \<open>The API client (cms-api.js)\<close>

subsection \<open>Construction\<close>

text \<open>The global \<^verbatim>\<open>gadget\<close> object is read through its properties.\<close>

record cms_api =
  api_name :: jsval
  api_site :: jsval
  api_apihost :: jsval
  api_account :: jsval
  api_skin :: jsval
  api_hostbase :: jsval
  api_user :: jsval

definition constructor :: "obj \<Rightarrow> cms_api" where
  "constructor gadget =
    (let name = js_or (obj_get gadget ''name'') (js_or (obj_get gadget ''gid'') (JStr ''''));
         site = js_or (obj_get gadget ''site'') (JStr '''');
         apihost = js_or (obj_get gadget ''apihost'') (JStr ''https://a.cms.omniupdate.com'');
         account = js_or (obj_get gadget ''account'') (JStr ''missouristate'');
         skin = js_or (obj_get gadget ''skin'') (JStr ''oucampus'');
         hostbase = js_or (obj_get gadget ''hostbase'')
           (JStr (''/11/#'' @ to_string skin @ ''/'' @ to_string account @ ''/'' @ to_string site));
         user = js_or (obj_get gadget ''user'') (JStr ''unknown user'')
     in \<lparr> api_name = name, api_site = site, api_apihost = apihost, api_account = account,
          api_skin = skin, api_hostbase = hostbase, api_user = user \<rparr>)"

subsection \<open>The retry loop of \<^verbatim>\<open>call\<close>\<close>

text \<open>
  A failed \<^verbatim>\<open>$.ajax\<close> hands the \<^verbatim>\<open>fail\<close> callback the transport object, a status text and
  an error text; \<^verbatim>\<open>responseJSON\<close> is undefined when the body was not JSON.
\<close>

record jqXHR =
  responseJSON :: jsval
  http_status :: int

datatype ajax_outcome = Done jsval | Fail jqXHR string string

datatype call_outcome = Resolved jsval | Rejected jqXHR string string

record request =
  rq_type :: string
  rq_url :: string
  rq_data :: obj
  rq_header_token :: jsval

text \<open>What one \<^verbatim>\<open>call\<close> did: how its promise settled, the requests it sent in order, the
  delays it waited between them, and the page body when the session fallback replaced it.\<close>

record call_result =
  outcome :: call_outcome
  requests :: "request list"
  waits :: "jsnum list"
  body :: "string option"

text \<open>
  The arithmetic of the backoff is that of IEEE doubles.  The numbers at hand are integers;
  an integer of more than 53 bits is rounded to the nearest double, ties to the even
  one, and a result beyond the largest double is an infinity.  \<open>bits n\<close> is the length of
  \<open>n\<close> in binary.
\<close>

fun bits :: "nat \<Rightarrow> nat" where
  "bits n = (if n = 0 then 0 else Suc (bits (n div 2)))"

declare bits.simps [simp del]

definition double_limit :: nat where
  "double_limit = 2 ^ 1024"

definition round_double :: "int \<Rightarrow> jsnum" where
  "round_double x =
    (let m = nat \<bar>x\<bar>;
         e = bits m - 53;
         q = m div 2 ^ e;
         rest = m mod 2 ^ e;
         q' = (if 2 ^ e < 2 * rest \<or> (2 * rest = 2 ^ e \<and> odd q) then q + 1 else q);
         y = q' * 2 ^ e
     in if double_limit \<le> y then (if x < 0 then NegInfinity else PosInfinity)
        else Fin (if x < 0 then - int y else int y))"

text \<open>\<^verbatim>\<open>a * b\<close>, \<^verbatim>\<open>a + b\<close>, \<^verbatim>\<open>Math.min(a, b)\<close> and \<^verbatim>\<open>Math.pow(2, n)\<close>\<close>

fun num_mul :: "jsnum \<Rightarrow> jsnum \<Rightarrow> jsnum" where
  "num_mul NaN b = NaN"
| "num_mul a NaN = NaN"
| "num_mul (Fin a) (Fin b) = round_double (a * b)"
| "num_mul (Fin a) PosInfinity = (if a = 0 then NaN else if 0 < a then PosInfinity else NegInfinity)"
| "num_mul (Fin a) NegInfinity = (if a = 0 then NaN else if 0 < a then NegInfinity else PosInfinity)"
| "num_mul PosInfinity (Fin b) = (if b = 0 then NaN else if 0 < b then PosInfinity else NegInfinity)"
| "num_mul NegInfinity (Fin b) = (if b = 0 then NaN else if 0 < b then NegInfinity else PosInfinity)"
| "num_mul PosInfinity PosInfinity = PosInfinity"
| "num_mul PosInfinity NegInfinity = NegInfinity"
| "num_mul NegInfinity PosInfinity = NegInfinity"
| "num_mul NegInfinity NegInfinity = PosInfinity"

fun num_add :: "jsnum \<Rightarrow> jsnum \<Rightarrow> jsnum" where
  "num_add NaN b = NaN"
| "num_add a NaN = NaN"
| "num_add (Fin a) (Fin b) = round_double (a + b)"
| "num_add PosInfinity NegInfinity = NaN"
| "num_add NegInfinity PosInfinity = NaN"
| "num_add PosInfinity b = PosInfinity"
| "num_add a PosInfinity = PosInfinity"
| "num_add NegInfinity b = NegInfinity"
| "num_add a NegInfinity = NegInfinity"

fun num_min :: "jsnum \<Rightarrow> jsnum \<Rightarrow> jsnum" where
  "num_min NaN b = NaN"
| "num_min a NaN = NaN"
| "num_min NegInfinity b = NegInfinity"
| "num_min a NegInfinity = NegInfinity"
| "num_min PosInfinity b = b"
| "num_min a PosInfinity = a"
| "num_min (Fin a) (Fin b) = Fin (min a b)"

definition pow2 :: "nat \<Rightarrow> jsnum" where
  "pow2 n = round_double (2 ^ n)"

text \<open>\<^verbatim>\<open>Math.min(delay * Math.pow(2, attempt) + Math.floor(Math.random() * 250), 15_000)\<close>,
  with the value drawn by \<^verbatim>\<open>Math.random()\<close> as the argument \<open>r\<close>.\<close>

definition backoff :: "int \<Rightarrow> real \<Rightarrow> nat \<Rightarrow> jsnum" where
  "backoff delay r attempt =
    (let base = num_mul (round_double delay) (pow2 attempt);
         jitter = round_double \<lfloor>r * 250\<rfloor>
     in num_min (num_add base jitter) (Fin 15000))"

definition retryCodes :: "string list" where
  "retryCodes = [''TIMEOUT'']"

text \<open>\<^verbatim>\<open>retryCodes.some(token => typeof response.code === 'string' && response.code.includes(token))\<close>\<close>

definition retriable_code :: "jsval \<Rightarrow> bool" where
  "retriable_code code =
     list_ex (\<lambda>token. case code of JStr c \<Rightarrow> str_includes c token | _ \<Rightarrow> False) retryCodes"

definition reconnect_html :: string where
  "reconnect_html = ''<h3>Failed to connect</h3><p>Reload the page.</p>''"

definition make_request :: "obj \<Rightarrow> string \<Rightarrow> string \<Rightarrow> obj \<Rightarrow> request" where
  "make_request gadget method endpoint params =
     \<lparr> rq_type = method,
       rq_url = to_string (obj_get gadget ''apihost'') @ endpoint,
       rq_data = params,
       rq_header_token = obj_get gadget ''token'' \<rparr>"

text \<open>
  \<^verbatim>\<open>ring(count)\<close>: attempt number \<open>count\<close>.  \<open>ajax count\<close> is what the server answers to
  that attempt and \<open>rnd count\<close> the random draw of the backoff after it.
\<close>

function ring :: "obj \<Rightarrow> string \<Rightarrow> string \<Rightarrow> obj \<Rightarrow> (nat \<Rightarrow> ajax_outcome) \<Rightarrow> (nat \<Rightarrow> real)
    \<Rightarrow> int \<Rightarrow> int \<Rightarrow> nat \<Rightarrow> call_result" where
  "ring gadget method endpoint params ajax rnd retries delay count =
    (let rq = make_request gadget method endpoint params in
     case ajax count of
       Done v \<Rightarrow> \<lparr> outcome = Resolved v, requests = [rq], waits = [], body = None \<rparr>
     | Fail x status error \<Rightarrow>
        (let response = responseJSON x;
             retriable = (truthy response \<and> retriable_code (js_prop response ''code''));
             blank = (truthy response \<and> js_prop response ''code'' = JStr ''SESSION_NOT_FOUND'')
         in if retriable \<and> int count < retries
            then (let r = ring gadget method endpoint params ajax rnd retries delay (count + 1)
                  in \<lparr> outcome = outcome r,
                       requests = rq # requests r,
                       waits = backoff delay (rnd count) count # waits r,
                       body = (case body r of Some b \<Rightarrow> Some b
                               | None \<Rightarrow> if blank then Some reconnect_html else None) \<rparr>)
            else \<lparr> outcome = Rejected x status error, requests = [rq], waits = [],
                   body = (if blank then Some reconnect_html else None) \<rparr>))"
  by pat_completeness auto
termination
  by (relation "measure (\<lambda>(gadget, method, endpoint, params, ajax, rnd, retries, delay, count).
        nat (retries - int count))") auto

declare ring.simps [simp del]

subsection \<open>\<^verbatim>\<open>call\<close>, \<^verbatim>\<open>get\<close> and \<^verbatim>\<open>post\<close>\<close>

text \<open>
  The parameter object a caller hands to the client is shared with the caller, and the
  client writes into it.  Objects that are passed by reference live in a store; a
  reference is an address allocated in it.
\<close>

record heap =
  objs :: "nat \<rightharpoonup> obj"
  next_addr :: nat

definition alloc :: "heap \<Rightarrow> nat \<times> heap" where
  "alloc h = (next_addr h, h\<lparr> objs := (objs h)(next_addr h \<mapsto> []), next_addr := next_addr h + 1 \<rparr>)"

definition heap_obj :: "heap \<Rightarrow> nat \<Rightarrow> obj" where
  "heap_obj h a = (case objs h a of None \<Rightarrow> [] | Some ob \<Rightarrow> ob)"

definition heap_set :: "heap \<Rightarrow> nat \<Rightarrow> string \<Rightarrow> jsval \<Rightarrow> heap" where
  "heap_set h a k v =
     (case objs h a of None \<Rightarrow> h | Some ob \<Rightarrow> h\<lparr> objs := (objs h)(a \<mapsto> obj_set ob k v) \<rparr>)"

text \<open>The argument of \<^verbatim>\<open>call\<close>; \<open>cc_data\<close> refers to the parameter object, and an absent
  field is \<open>None\<close>.\<close>

record call_config =
  cc_method :: string
  cc_endpoint :: string
  cc_data :: "nat option"
  cc_retries :: "int option"
  cc_delay :: "int option"

record call_state =
  cs_result :: call_result
  cs_heap :: heap
  cs_config :: call_config

definition call :: "obj \<Rightarrow> heap \<Rightarrow> call_config \<Rightarrow> (nat \<Rightarrow> ajax_outcome) \<Rightarrow> (nat \<Rightarrow> real)
    \<Rightarrow> call_state" where
  "call gadget h config ajax rnd =
    (let retries = nullish (cc_retries config) 3;
         delay = nullish (cc_delay config) 1000;
         (a, h1) = (case cc_data config of Some a \<Rightarrow> (a, h) | None \<Rightarrow> alloc h);
         config1 = config\<lparr> cc_data := Some a \<rparr>;
         h2 = heap_set h1 a ''authorization_token'' (obj_get gadget ''token'')
     in \<lparr> cs_result = ring gadget (cc_method config1) (cc_endpoint config1) (heap_obj h2 a)
                         ajax rnd retries delay 0,
          cs_heap = h2,
          cs_config = config1 \<rparr>)"

text \<open>\<^verbatim>\<open>get(endpoint, data, retries = 3)\<close> and \<^verbatim>\<open>post(endpoint, data, retries = 3)\<close>: an omitted
  \<open>retries\<close> is \<open>None\<close>.\<close>

definition get :: "obj \<Rightarrow> heap \<Rightarrow> string \<Rightarrow> nat option \<Rightarrow> int option
    \<Rightarrow> (nat \<Rightarrow> ajax_outcome) \<Rightarrow> (nat \<Rightarrow> real) \<Rightarrow> call_state" where
  "get gadget h endpoint data retries =
     call gadget h \<lparr> cc_method = ''GET'', cc_endpoint = endpoint, cc_data = data,
                     cc_retries = Some (nullish retries 3), cc_delay = None \<rparr>"

definition post :: "obj \<Rightarrow> heap \<Rightarrow> string \<Rightarrow> nat option \<Rightarrow> int option
    \<Rightarrow> (nat \<Rightarrow> ajax_outcome) \<Rightarrow> (nat \<Rightarrow> real) \<Rightarrow> call_state" where
  "post gadget h endpoint data retries =
     call gadget h \<lparr> cc_method = ''POST'', cc_endpoint = endpoint, cc_data = data,
                     cc_retries = Some (nullish retries 3), cc_delay = None \<rparr>"

subsection \<open>Endpoint methods\<close>

text \<open>
  Every endpoint method has the same shape: a few default assignments into \<^verbatim>\<open>config\<close>
  (\<^verbatim>\<open>if (!config.k) config.k = v\<close> or \<^verbatim>\<open>if (config.k === undefined) config.k = v\<close>), then
  one of \<^verbatim>\<open>this.get\<close>, \<^verbatim>\<open>this.post\<close> or \<^verbatim>\<open>this.call\<close> on a path.  The table lists each
  method by name with its assignments in source order.
\<close>

datatype dflt_value = ThisSite | ThisAccount | ThisUser | ConfigSite | Literal jsval

datatype dflt = IfFalsy string dflt_value | IfUndefined string dflt_value

datatype ep_path = Path string | TypeNamePath string

datatype ep_send = ViaGet | ViaPost | ViaMethodArg | ViaPostRetries | ViaCall

record ep_spec =
  defaults :: "dflt list"
  path :: ep_path
  send :: ep_send

definition endpoints :: "(string \<times> ep_spec) list" where
  "endpoints = [
    (''assets_list'', \<lparr> defaults = [IfFalsy ''site'' ThisSite],
       path = Path ''/assets/list'', send = ViaGet \<rparr>),
    (''assets_view'', \<lparr> defaults = [IfFalsy ''site'' ThisSite],
       path = Path ''/assets/view'', send = ViaGet \<rparr>),
    (''components_dependents'', \<lparr> defaults = [IfFalsy ''type'' (Literal (JStr ''generic''))],
       path = TypeNamePath ''/rs/components/dependents/'', send = ViaGet \<rparr>),
    (''components_get'', \<lparr> defaults = [IfFalsy ''type'' (Literal (JStr ''generic''))],
       path = TypeNamePath ''/rs/components/'', send = ViaGet \<rparr>),
    (''components_list'', \<lparr> defaults = [IfFalsy ''type'' (Literal (JStr ''generic'')), IfUndefined ''disabled'' (Literal (JBool False))],
       path = Path ''/rs/components'', send = ViaGet \<rparr>),
    (''directories_settings'', \<lparr> defaults = [IfFalsy ''site'' ThisSite],
       path = Path ''/directories/settings'', send = ViaMethodArg \<rparr>),
    (''files_backup'', \<lparr> defaults = [IfFalsy ''site'' ThisSite, IfFalsy ''message'' (Literal (JStr ''Backup via CMS API''))],
       path = Path ''/files/backup'', send = ViaPost \<rparr>),
    (''files_brokenpages'', \<lparr> defaults = [IfFalsy ''site'' ThisSite],
       path = Path ''/files/brokenpages'', send = ViaGet \<rparr>),
    (''files_checkedout'', \<lparr> defaults = [IfUndefined ''all'' (Literal (JBool True)), IfFalsy ''site'' ThisSite],
       path = Path ''/files/checkedout'', send = ViaGet \<rparr>),
    (''files_checkin'', \<lparr> defaults = [IfFalsy ''site'' ThisSite],
       path = Path ''/files/checkin'', send = ViaPost \<rparr>),
    (''files_checkout'', \<lparr> defaults = [IfFalsy ''site'' ThisSite],
       path = Path ''/files/checkout'', send = ViaPost \<rparr>),
    (''files_content'', \<lparr> defaults = [IfFalsy ''site'' ThisSite],
       path = Path ''/files/content'', send = ViaGet \<rparr>),
    (''files_copy'', \<lparr> defaults = [IfFalsy ''site'' ThisSite],
       path = Path ''/files/copy'', send = ViaPostRetries \<rparr>),
    (''files_delete'', \<lparr> defaults = [IfFalsy ''site'' ThisSite],
       path = Path ''/files/delete'', send = ViaPost \<rparr>),
    (''files_dependencies'', \<lparr> defaults = [IfFalsy ''site'' ThisSite],
       path = Path ''/files/dependencies'', send = ViaGet \<rparr>),
    (''files_dependency'', \<lparr> defaults = [IfFalsy ''site'' ThisSite],
       path = Path ''/files/dependency'', send = ViaGet \<rparr>),
    (''files_dependents'', \<lparr> defaults = [IfFalsy ''site'' ThisSite],
       path = Path ''/files/dependents'', send = ViaGet \<rparr>),
    (''files_dirtypages'', \<lparr> defaults = [IfFalsy ''site'' ThisSite],
       path = Path ''/files/dirtypages'', send = ViaGet \<rparr>),
    (''files_dm_revert'', \<lparr> defaults = [IfFalsy ''site'' ThisSite],
       path = Path ''/files/dm_revert'', send = ViaPost \<rparr>),
    (''files_info'', \<lparr> defaults = [IfFalsy ''site'' ThisSite],
       path = Path ''/files/info'', send = ViaGet \<rparr>),
    (''files_list'', \<lparr> defaults = [IfFalsy ''site'' ThisSite],
       path = Path ''/files/list'', send = ViaGet \<rparr>),
    (''files_locked'', \<lparr> defaults = [IfFalsy ''site'' ThisSite],
       path = Path ''/files/locked'', send = ViaGet \<rparr>),
    (''files_log'', \<lparr> defaults = [IfFalsy ''site'' ThisSite],
       path = Path ''/files/log'', send = ViaGet \<rparr>),
    (''files_move'', \<lparr> defaults = [IfFalsy ''site'' ThisSite],
       path = Path ''/files/move'', send = ViaPost \<rparr>),
    (''files_multipublish'', \<lparr> defaults = [IfFalsy ''site'' ThisSite, IfFalsy ''target'' ConfigSite],
       path = Path ''/files/multipublish'', send = ViaCall \<rparr>),
    (''files_new_folder'', \<lparr> defaults = [IfFalsy ''site'' ThisSite],
       path = Path ''/files/new_folder'', send = ViaPost \<rparr>),
    (''files_products'', \<lparr> defaults = [IfFalsy ''site'' ThisSite],
       path = Path ''/files/products'', send = ViaGet \<rparr>),
    (''files_properties'', \<lparr> defaults = [IfFalsy ''site'' ThisSite],
       path = Path ''/files/properties'', send = ViaMethodArg \<rparr>),
    (''files_publish'', \<lparr> defaults = [IfFalsy ''site'' ThisSite],
       path = Path ''/files/publish'', send = ViaPost \<rparr>),
    (''files_recycle'', \<lparr> defaults = [IfFalsy ''site'' ThisSite],
       path = Path ''/files/recycle'', send = ViaPost \<rparr>),
    (''files_rename'', \<lparr> defaults = [IfFalsy ''site'' ThisSite],
       path = Path ''/files/rename'', send = ViaPost \<rparr>),
    (''files_save'', \<lparr> defaults = [IfFalsy ''site'' ThisSite],
       path = Path ''/files/save'', send = ViaPost \<rparr>),
    (''files_scan'', \<lparr> defaults = [IfFalsy ''site'' ThisSite],
       path = Path ''/files/scan'', send = ViaPost \<rparr>),
    (''files_settings'', \<lparr> defaults = [IfFalsy ''site'' ThisSite],
       path = Path ''/files/settings'', send = ViaMethodArg \<rparr>),
    (''files_source'', \<lparr> defaults = [IfFalsy ''site'' ThisSite, IfUndefined ''brokentags'' (Literal (JBool True))],
       path = Path ''/files/source'', send = ViaGet \<rparr>),
    (''files_subscribers'', \<lparr> defaults = [IfFalsy ''site'' ThisSite],
       path = Path ''/files/subscribers'', send = ViaGet \<rparr>),
    (''files_upload'', \<lparr> defaults = [IfFalsy ''site'' ThisSite, IfUndefined ''overwrite'' (Literal (JBool True))],
       path = Path ''/files/upload'', send = ViaPost \<rparr>),
    (''files_versions'', \<lparr> defaults = [IfFalsy ''site'' ThisSite],
       path = Path ''/files/versions'', send = ViaGet \<rparr>),
    (''files_view'', \<lparr> defaults = [IfFalsy ''site'' ThisSite],
       path = Path ''/files/view'', send = ViaGet \<rparr>),
    (''files_wysiwyg_info'', \<lparr> defaults = [IfFalsy ''site'' ThisSite],
       path = Path ''/files/wysiwyg_info'', send = ViaGet \<rparr>),
    (''groups_list'', \<lparr> defaults = [],
       path = Path ''/groups/list'', send = ViaGet \<rparr>),
    (''groups_view'', \<lparr> defaults = [],
       path = Path ''/groups/view'', send = ViaGet \<rparr>),
    (''reports_custom'', \<lparr> defaults = [IfUndefined ''all'' (Literal (JBool True)), IfFalsy ''site'' ThisSite],
       path = Path ''/reports'', send = ViaGet \<rparr>),
    (''reports_subscribers'', \<lparr> defaults = [IfFalsy ''site'' ThisSite],
       path = Path ''/reports/subscribers'', send = ViaGet \<rparr>),
    (''sites_advanced_search'', \<lparr> defaults = [IfFalsy ''site'' ThisSite],
       path = Path ''/sites/advanced_search'', send = ViaGet \<rparr>),
    (''sites_basic_search'', \<lparr> defaults = [IfFalsy ''site'' ThisSite],
       path = Path ''/sites/basic_search'', send = ViaGet \<rparr>),
    (''sites_findreplace'', \<lparr> defaults = [IfFalsy ''site'' ThisSite],
       path = Path ''/sites/findreplace'', send = ViaPost \<rparr>),
    (''sites_findreplacestatus'', \<lparr> defaults = [IfFalsy ''site'' ThisSite],
       path = Path ''/sites/findreplacestatus'', send = ViaGet \<rparr>),
    (''sites_list'', \<lparr> defaults = [IfFalsy ''account'' ThisAccount],
       path = Path ''/sites/list'', send = ViaGet \<rparr>),
    (''sites_publish'', \<lparr> defaults = [IfFalsy ''site'' ThisSite],
       path = Path ''/sites/publish'', send = ViaPost \<rparr>),
    (''sites_quicksearch'', \<lparr> defaults = [IfFalsy ''site'' ThisSite, IfFalsy ''count'' (Literal (JNum (Fin 1000)))],
       path = Path ''/sites/quicksearch'', send = ViaGet \<rparr>),
    (''sites_revert'', \<lparr> defaults = [IfFalsy ''site'' ThisSite],
       path = Path ''/sites/revert'', send = ViaPost \<rparr>),
    (''sites_scan'', \<lparr> defaults = [IfFalsy ''site'' ThisSite],
       path = Path ''/sites/scan'', send = ViaGet \<rparr>),
    (''sites_sitemap'', \<lparr> defaults = [IfFalsy ''site'' ThisSite],
       path = Path ''/sites/sitemap'', send = ViaPost \<rparr>),
    (''sites_targets'', \<lparr> defaults = [IfFalsy ''site'' ThisSite],
       path = Path ''/sites/targets'', send = ViaGet \<rparr>),
    (''sites_view'', \<lparr> defaults = [IfFalsy ''account'' ThisAccount, IfFalsy ''site'' ThisSite],
       path = Path ''/sites/view'', send = ViaGet \<rparr>),
    (''tag_list'', \<lparr> defaults = [],
       path = Path ''/tag/list'', send = ViaGet \<rparr>),
    (''users_delete'', \<lparr> defaults = [],
       path = Path ''/users/delete'', send = ViaPost \<rparr>),
    (''users_groups'', \<lparr> defaults = [IfFalsy ''user'' ThisUser],
       path = Path ''/users/groups'', send = ViaGet \<rparr>),
    (''users_list'', \<lparr> defaults = [],
       path = Path ''/users/list'', send = ViaGet \<rparr>),
    (''users_view'', \<lparr> defaults = [IfFalsy ''user'' ThisUser],
       path = Path ''/users/view'', send = ViaGet \<rparr>)
  ]"

fun dflt_eval :: "cms_api \<Rightarrow> obj \<Rightarrow> dflt_value \<Rightarrow> jsval" where
  "dflt_eval api config ThisSite = api_site api"
| "dflt_eval api config ThisAccount = api_account api"
| "dflt_eval api config ThisUser = api_user api"
| "dflt_eval api config ConfigSite = obj_get config ''site''"
| "dflt_eval api config (Literal v) = v"

fun apply_dflt :: "cms_api \<Rightarrow> dflt \<Rightarrow> obj \<Rightarrow> obj" where
  "apply_dflt api (IfFalsy k v) config =
     (if \<not> truthy (obj_get config k) then obj_set config k (dflt_eval api config v) else config)"
| "apply_dflt api (IfUndefined k v) config =
     (if obj_get config k = JUndef then obj_set config k (dflt_eval api config v) else config)"

text \<open>The property a default assignment targets, the value it names and the test it makes.\<close>

fun dflt_key :: "dflt \<Rightarrow> string" where
  "dflt_key (IfFalsy k v) = k"
| "dflt_key (IfUndefined k v) = k"

fun dflt_val :: "dflt \<Rightarrow> dflt_value" where
  "dflt_val (IfFalsy k v) = v"
| "dflt_val (IfUndefined k v) = v"

fun dflt_cond :: "dflt \<Rightarrow> obj \<Rightarrow> bool" where
  "dflt_cond (IfFalsy k v) config = (\<not> truthy (obj_get config k))"
| "dflt_cond (IfUndefined k v) config = (obj_get config k = JUndef)"

text \<open>\<open>TypeNamePath p\<close> is the template \<^verbatim>\<open>`p${config.type}/${config.name}`\<close>.\<close>

fun ep_path_string :: "ep_path \<Rightarrow> obj \<Rightarrow> string" where
  "ep_path_string (Path p) config = p"
| "ep_path_string (TypeNamePath p) config =
     p @ to_string (obj_get config ''type'') @ ''/'' @ to_string (obj_get config ''name'')"

text \<open>
  Running an endpoint method.  \<open>config\<close> is the caller's object (\<open>None\<close> when the caller
  passes nothing and the default \<^verbatim>\<open>{}\<close> is created); \<open>marg\<close> and \<open>rarg\<close> are the
  second argument (\<^verbatim>\<open>method\<close>, \<^verbatim>\<open>retries\<close>) of the methods that take one.
\<close>

definition endpoint_method :: "cms_api \<Rightarrow> obj \<Rightarrow> heap \<Rightarrow> ep_spec \<Rightarrow> nat option \<Rightarrow> string option
    \<Rightarrow> int option \<Rightarrow> (nat \<Rightarrow> ajax_outcome) \<Rightarrow> (nat \<Rightarrow> real) \<Rightarrow> call_state" where
  "endpoint_method api gadget h ep config marg rarg ajax rnd =
    (let (a, h1) = (case config of Some a \<Rightarrow> (a, h) | None \<Rightarrow> alloc h);
         h2 = (case objs h1 a of None \<Rightarrow> h1
               | Some ob \<Rightarrow> h1\<lparr> objs := (objs h1)(a \<mapsto> fold (apply_dflt api) (defaults ep) ob) \<rparr>);
         p = ep_path_string (path ep) (heap_obj h2 a)
     in case send ep of
          ViaGet \<Rightarrow> get gadget h2 p (Some a) None ajax rnd
        | ViaPost \<Rightarrow> post gadget h2 p (Some a) None ajax rnd
        | ViaMethodArg \<Rightarrow>
            (if nullish marg ''GET'' = ''POST'' then post gadget h2 p (Some a) None ajax rnd
             else get gadget h2 p (Some a) None ajax rnd)
        | ViaPostRetries \<Rightarrow> post gadget h2 p (Some a) (Some (nullish rarg 0)) ajax rnd
        | ViaCall \<Rightarrow>
            call gadget h2 \<lparr> cc_method = ''POST'', cc_endpoint = p, cc_data = Some a,
                             cc_retries = None, cc_delay = None \<rparr> ajax rnd)"

text \<open>The value of the \<^verbatim>\<open>retriable\<close> flag that the \<^verbatim>\<open>fail\<close> callback computes for an
  outcome of \<^verbatim>\<open>$.ajax\<close>.\<close>

definition retriable_failure :: "ajax_outcome \<Rightarrow> bool" where
  "retriable_failure a = (case a of Done v \<Rightarrow> False
     | Fail x status error \<Rightarrow> truthy (responseJSON x) \<and> retriable_code (js_prop (responseJSON x) ''code''))"


section \<open>The host bridge (gadget.js)\<close>

text \<open>
  The bridge keeps its state in the \<^verbatim>\<open>gadget\<close> object (the environment), in the map
  \<^verbatim>\<open>pendingRequests\<close> and in the timers it has started.  The model adds what the browser
  and jQuery hold for it: the calls made on each Deferred, the messages posted to the top
  window, the events triggered on the bus, the console and the consumers waiting in
  \<^verbatim>\<open>gadget.ready\<close>.
\<close>

subsection \<open>Normalising the trusted origin\<close>

definition is_space :: "char \<Rightarrow> bool" where
  "is_space c = (c \<in> set [CHR '' '', CHR 0x09, CHR 0x0A, CHR 0x0B, CHR 0x0C, CHR 0x0D, CHR 0xA0])"

text \<open>\<^verbatim>\<open>value.trim()\<close>\<close>

definition trim :: "string \<Rightarrow> string" where
  "trim s = rev (dropWhile is_space (rev (dropWhile is_space s)))"

definition lower :: "char \<Rightarrow> char" where
  "lower c = (case map_of (zip ''ABCDEFGHIJKLMNOPQRSTUVWXYZ'' ''abcdefghijklmnopqrstuvwxyz'') c of
                None \<Rightarrow> c | Some l \<Rightarrow> l)"

definition is_digit :: "char \<Rightarrow> bool" where
  "is_digit c = (c \<in> set ''0123456789'')"

text \<open>\<^verbatim>\<open>/^https?:\/\//i\<close>\<close>

definition is_absolute_http :: "string \<Rightarrow> bool" where
  "is_absolute_http v = (prefix ''http://'' (map lower v) \<or> prefix ''https://'' (map lower v))"

text \<open>\<^verbatim>\<open>/^\/\//\<close>\<close>

definition is_protocol_relative :: "string \<Rightarrow> bool" where
  "is_protocol_relative v = prefix ''//'' v"

text \<open>\<^verbatim>\<open>/^[a-z0-9.-]+(?::\d+)?$/i\<close>: the colon is not a host character, so the host part is the
  longest run of host characters at the start.\<close>

definition is_host_char :: "char \<Rightarrow> bool" where
  "is_host_char c = (lower c \<in> set ''abcdefghijklmnopqrstuvwxyz0123456789.-'')"

definition is_host_port :: "string \<Rightarrow> bool" where
  "is_host_port v =
    (let host = takeWhile is_host_char v;
         rest = dropWhile is_host_char v
     in host \<noteq> [] \<and>
        (case rest of
           [] \<Rightarrow> True
         | c # port \<Rightarrow> c = CHR '':'' \<and> port \<noteq> [] \<and> list_all is_digit port))"

text \<open>
  \<^verbatim>\<open>normalizeOrigin(value)\<close>.  \<open>url_origin s\<close> is \<^verbatim>\<open>new URL(s).origin\<close> of the browser, \<open>None\<close>
  when the constructor throws; \<open>protocol\<close> is \<^verbatim>\<open>gadgetWindow.location.protocol\<close>.
\<close>

definition origin_or_null :: "string option \<Rightarrow> jsval" where
  "origin_or_null r = (case r of None \<Rightarrow> JNull | Some origin \<Rightarrow> JStr origin)"

definition normalizeOrigin :: "(string \<Rightarrow> string option) \<Rightarrow> string \<Rightarrow> jsval \<Rightarrow> jsval" where
  "normalizeOrigin url_origin protocol value =
    (case value of
       JStr s \<Rightarrow>
        (let v = trim s in
         if v = [] then JNull
         else if v = ''*'' then JNull
         else
          (let pageProtocol = (if protocol = [] then ''https:'' else protocol) in
           if is_absolute_http v then origin_or_null (url_origin v)
           else if is_protocol_relative v then origin_or_null (url_origin (pageProtocol @ v))
           else if is_host_port v then origin_or_null (url_origin (pageProtocol @ ''//'' @ v))
           else JNull))
     | _ \<Rightarrow> JNull)"

subsection \<open>State\<close>

datatype settlement = Resolve jsval | Reject jsval

record pending_entry =
  pe_deferred :: nat
  pe_timerId :: "nat option"
  pe_name :: string

text \<open>The variables the timeout callback of a request closes over.\<close>

record timeout_closure =
  t_msgid :: string
  t_deferred :: nat
  t_name :: string
  t_timeoutMs :: jsnum

record envelope =
  m_name :: string
  m_gid :: jsval
  m_origin :: jsval
  m_token :: jsval
  m_place :: jsval
  m_payload :: jsval
  m_callback :: string

record bridge =
  env :: obj
  pendingRequests :: "string \<rightharpoonup> pending_entry"
  timers :: "nat \<rightharpoonup> timeout_closure"
  next_timer :: nat
  next_deferred :: nat
  settled :: "(nat \<times> settlement) list"
  posted :: "(envelope \<times> jsval) list"
  triggered :: "(jsval \<times> jsval) list"
  console :: "string list"
  waiting :: "nat list"
  proceeded :: "nat list"
  init_chain :: "(nat \<times> obj) option"

definition initial_bridge :: bridge where
  "initial_bridge = \<lparr> env = [], pendingRequests = Map.empty, timers = Map.empty, next_timer = 0,
     next_deferred = 0, settled = [], posted = [], triggered = [], console = [],
     waiting = [], proceeded = [], init_chain = None \<rparr>"

record message_event =
  ev_source_is_top :: bool
  ev_origin :: jsval
  ev_data :: jsval

record location =
  loc_origin :: string
  loc_pathname :: string
  loc_params :: "(string \<times> string) list"
  loc_protocol :: string

subsection \<open>The gadget object\<close>

text \<open>The own enumerable properties a \<^verbatim>\<open>for ... in\<close> loop or a spread visits.\<close>

fun own_props :: "jsval \<Rightarrow> obj" where
  "own_props (JObj kvs) = AList.clearjunk kvs"
| "own_props (JArr xs) = zip (map show_nat [0..<length xs]) xs"
| "own_props (JStr s) = zip (map show_nat [0..<length s]) (map (\<lambda>c. JStr [c]) s)"
| "own_props _ = []"

definition assign :: "obj \<Rightarrow> obj \<Rightarrow> obj" where
  "assign target kvs = fold (\<lambda>(k, v) ob. obj_set ob k v) kvs target"

text \<open>\<^verbatim>\<open>gadget.set(arg0, arg1)\<close>\<close>

definition gadget_set :: "obj \<Rightarrow> jsval \<Rightarrow> jsval \<Rightarrow> obj" where
  "gadget_set this arg0 arg1 =
    (case arg0 of
       JStr k \<Rightarrow> obj_set this k arg1
     | JObj kvs \<Rightarrow> assign this (own_props arg0)
     | JArr xs \<Rightarrow> assign this (own_props arg0)
     | _ \<Rightarrow> this)"

text \<open>\<^verbatim>\<open>s.split(c)\<close> and \<^verbatim>\<open>segments.at(-2)\<close>\<close>

fun split_on :: "char \<Rightarrow> string \<Rightarrow> string list" where
  "split_on c [] = [[]]"
| "split_on c (x # xs) =
     (if x = c then [] # split_on c xs
      else (case split_on c xs of [] \<Rightarrow> [[x]] | s # ss \<Rightarrow> (x # s) # ss))"

definition at_minus_2 :: "string list \<Rightarrow> jsval" where
  "at_minus_2 segments =
     (if 2 \<le> length segments then JStr (segments ! (length segments - 2)) else JUndef)"

text \<open>\<^verbatim>\<open>gadget.getUrlData()\<close>, from the parts of \<^verbatim>\<open>new URL(location.href)\<close>.\<close>

definition getUrlData :: "location \<Rightarrow> obj" where
  "getUrlData loc =
    (let data = [];
         data = obj_set data ''url'' (JStr (loc_origin loc @ loc_pathname loc));
         data = obj_set data ''name'' (at_minus_2 (split_on CHR ''/'' (loc_pathname loc)))
     in assign data (map (\<lambda>(key, value). (key, JStr value)) (loc_params loc)))"

text \<open>\<^verbatim>\<open>$(gadget).trigger(name, payload)\<close>: the event is recorded, and a \<^verbatim>\<open>ready\<close> event runs
  the one-shot handlers that \<^verbatim>\<open>gadget.ready\<close> has registered.\<close>

definition trigger :: "jsval \<Rightarrow> jsval \<Rightarrow> bridge \<Rightarrow> bridge" where
  "trigger name payload st =
    (let st1 = st\<lparr> triggered := triggered st @ [(name, payload)] \<rparr>
     in if name = JStr ''ready''
        then st1\<lparr> proceeded := proceeded st1 @ waiting st1, waiting := [] \<rparr>
        else st1)"

text \<open>\<^verbatim>\<open>gadget.ready(callback)\<close>, with the consumer's callback named by a number.\<close>

definition ready :: "nat \<Rightarrow> bridge \<Rightarrow> bridge" where
  "ready callback st =
    (if truthy (obj_get (env st) ''isReady'')
     then st\<lparr> proceeded := proceeded st @ [callback] \<rparr>
     else st\<lparr> waiting := waiting st @ [callback] \<rparr>)"

subsection \<open>The initialisation chain\<close>

text \<open>
  \<^verbatim>\<open>collectData().then(...).fail(...)\<close> hangs three callbacks on the Deferred of the
  \<^verbatim>\<open>get-environment\<close> request: the one of \<^verbatim>\<open>getEnvironment\<close>, the one of \<^verbatim>\<open>collectData\<close> and
  the pair of the initialisation.  They run when that Deferred settles.
\<close>

definition getEnvironment_then :: "jsval \<Rightarrow> jsval" where
  "getEnvironment_then data = (if data \<noteq> JStr ''Unrecognized message.'' then data else JNull)"

definition collectData_then :: "obj \<Rightarrow> jsval \<Rightarrow> bridge \<Rightarrow> obj \<times> bridge" where
  "collectData_then urlData data st =
    (let st1 = (if truthy data then st\<lparr> env := gadget_set (env st) data JUndef \<rparr> else st)
     in (assign (assign [] (own_props (JObj urlData))) (own_props data), st1))"

definition init_then :: "obj \<Rightarrow> bridge \<Rightarrow> bridge" where
  "init_then data st =
    (let st1 = st\<lparr> console := console st @ [''is ready''] \<rparr>;
         st2 = st1\<lparr> env := obj_set (env st1) ''isReady'' (JBool True) \<rparr>
     in trigger (JStr ''ready'') JUndef st2)"

definition init_fail :: "jsval \<Rightarrow> bridge \<Rightarrow> bridge" where
  "init_fail error st =
    (let st1 = st\<lparr> console := console st @ [''host env unavailable; continuing without env.''] \<rparr>;
         st2 = st1\<lparr> env := obj_set (env st1) ''isReady'' (JBool True) \<rparr>
     in trigger (JStr ''ready'') JUndef st2)"

definition run_init_chain :: "obj \<Rightarrow> settlement \<Rightarrow> bridge \<Rightarrow> bridge" where
  "run_init_chain urlData s st =
    (case s of
       Resolve payload \<Rightarrow>
         (let (merged, st1) = collectData_then urlData (getEnvironment_then payload) st
          in init_then merged st1)
     | Reject error \<Rightarrow> init_fail error st)"

subsection \<open>Deferreds\<close>

text \<open>
  \<open>settled\<close> lists every \<^verbatim>\<open>resolve\<close> and \<^verbatim>\<open>reject\<close> call in order.  As in jQuery only the
  first call on a Deferred settles it and runs its callbacks.
\<close>

definition is_settled :: "bridge \<Rightarrow> nat \<Rightarrow> bool" where
  "is_settled st d = (d \<in> set (map fst (settled st)))"

definition settle :: "nat \<Rightarrow> settlement \<Rightarrow> bridge \<Rightarrow> bridge" where
  "settle d s st =
    (let first = \<not> is_settled st d;
         st1 = st\<lparr> settled := settled st @ [(d, s)] \<rparr>
     in case init_chain st of
          None \<Rightarrow> st1
        | Some (d0, urlData) \<Rightarrow>
            if first \<and> d0 = d then run_init_chain urlData s (st1\<lparr> init_chain := None \<rparr>) else st1)"

definition new_deferred :: "bridge \<Rightarrow> nat \<times> bridge" where
  "new_deferred st = (next_deferred st, st\<lparr> next_deferred := next_deferred st + 1 \<rparr>)"

text \<open>How often \<^verbatim>\<open>resolve\<close> and \<^verbatim>\<open>reject\<close> were called on a Deferred.\<close>

definition resolutions :: "bridge \<Rightarrow> nat \<Rightarrow> nat" where
  "resolutions st d = length (filter (\<lambda>(d', s). d' = d \<and> (case s of Resolve v \<Rightarrow> True | Reject e \<Rightarrow> False)) (settled st))"

definition rejections :: "bridge \<Rightarrow> nat \<Rightarrow> nat" where
  "rejections st d = length (filter (\<lambda>(d', s). d' = d \<and> (case s of Resolve v \<Rightarrow> False | Reject e \<Rightarrow> True)) (settled st))"

subsection \<open>Requests and responses\<close>

text \<open>\<^verbatim>\<open>isTrustedEvent(event)\<close>\<close>

definition isTrustedEvent :: "bridge \<Rightarrow> message_event \<Rightarrow> bool" where
  "isTrustedEvent st event =
     (ev_source_is_top event \<and> is_string (ev_origin event)
      \<and> ev_origin event = obj_get (env st) ''msghostOrigin'')"

text \<open>\<^verbatim>\<open>parseMessageData(raw)\<close>, with \<^verbatim>\<open>JSON.parse\<close> as \<open>json_parse\<close> (\<open>None\<close> when it throws);
  the second component says whether the warning was logged.\<close>

definition parseMessageData :: "(string \<Rightarrow> jsval option) \<Rightarrow> jsval \<Rightarrow> jsval \<times> bool" where
  "parseMessageData json_parse raw =
    (case raw of
       JStr s \<Rightarrow> (case json_parse s of Some v \<Rightarrow> (v, False) | None \<Rightarrow> (JNull, True))
     | _ \<Rightarrow> (raw, False))"

text \<open>\<^verbatim>\<open>clearPending(callbackId)\<close>\<close>

definition clearPending :: "string \<Rightarrow> bridge \<Rightarrow> bridge" where
  "clearPending callbackId st =
    (case pendingRequests st callbackId of
       None \<Rightarrow> st
     | Some entry \<Rightarrow>
        (let st1 = (case pe_timerId entry of
                      None \<Rightarrow> st
                    | Some tid \<Rightarrow> if tid \<noteq> 0 then st\<lparr> timers := (timers st)(tid := None) \<rparr> else st)
         in st1\<lparr> pendingRequests := (pendingRequests st1)(callbackId := None) \<rparr>))"

definition missing_msghost_error :: "string \<Rightarrow> jsval" where
  "missing_msghost_error name = JObj
     [(''code'', JStr ''missing_msghost''),
      (''message'', JStr ''gadget.msghost is not set (or not a valid origin); cannot postMessage() safely.''),
      (''name'', JStr name)]"

definition timeout_error :: "timeout_closure \<Rightarrow> jsval" where
  "timeout_error t = JObj
     [(''code'', JStr ''timeout''),
      (''message'', JStr ''Timed out waiting for host response.''),
      (''name'', JStr (t_name t)),
      (''callback'', JStr (t_msgid t)),
      (''timeoutMs'', JNum (t_timeoutMs t))]"

text \<open>\<^verbatim>\<open>isFinite(timeoutMs) && timeoutMs > 0\<close>\<close>

fun finite_positive :: "jsnum \<Rightarrow> bool" where
  "finite_positive (Fin n) = (0 < n)"
| "finite_positive _ = False"

text \<open>The timeout of a request: the option of the call, else \<^verbatim>\<open>gadget.requestTimeoutMs\<close>, else
  15000, each taken only when it is a number.\<close>

definition request_timeout :: "bridge \<Rightarrow> jsval \<Rightarrow> jsnum" where
  "request_timeout st opt_timeoutMs =
    (case opt_timeoutMs of
       JNum n \<Rightarrow> n
     | _ \<Rightarrow> (case obj_get (env st) ''requestTimeoutMs'' of JNum n \<Rightarrow> n | _ \<Rightarrow> Fin 15000))"

text \<open>
  \<^verbatim>\<open>sendMessageToTop(name, payload, options)\<close>.  \<open>opt_timeoutMs\<close> is \<^verbatim>\<open>options.timeoutMs\<close>,
  \<open>msgid\<close> the identifier that \<^verbatim>\<open>makeCallbackId()\<close> returns, and \<open>thrown\<close> the exception of
  the \<^verbatim>\<open>try\<close> block around \<^verbatim>\<open>postMessage\<close>, if it throws.  The timer started is the next
  positive number.
\<close>

definition sendMessageToTop :: "string \<Rightarrow> jsval \<Rightarrow> jsval \<Rightarrow> string \<Rightarrow> jsval option \<Rightarrow> bridge
    \<Rightarrow> nat \<times> bridge" where
  "sendMessageToTop name payload opt_timeoutMs msgid thrown st =
    (let timeoutMs = request_timeout st opt_timeoutMs in
     if \<not> truthy (obj_get (env st) ''msghostOrigin'')
     then (let (d, st1) = new_deferred st
           in (d, settle d (Reject (missing_msghost_error name)) st1))
     else
      (let message = \<lparr> m_name = name, m_gid = obj_get (env st) ''gid'',
                        m_origin = obj_get (env st) ''url'', m_token = obj_get (env st) ''token'',
                        m_place = obj_get (env st) ''place'', m_payload = payload,
                        m_callback = msgid \<rparr>;
           (deferred, st1) = new_deferred st;
           st2 = st1\<lparr> pendingRequests := (pendingRequests st1)
                   (msgid \<mapsto> \<lparr> pe_deferred = deferred, pe_timerId = None, pe_name = name \<rparr>) \<rparr>;
           st3 = (if finite_positive timeoutMs
                  then (let timerId = Suc (next_timer st2)
                        in st2\<lparr> timers := (timers st2)
                                   (timerId \<mapsto> \<lparr> t_msgid = msgid, t_deferred = deferred,
                                                  t_name = name, t_timeoutMs = timeoutMs \<rparr>),
                                next_timer := timerId,
                                pendingRequests := (pendingRequests st2)
                                   (msgid \<mapsto> \<lparr> pe_deferred = deferred, pe_timerId = Some timerId,
                                               pe_name = name \<rparr>) \<rparr>)
                  else st2)
       in case thrown of
            None \<Rightarrow> (deferred, st3\<lparr> posted := posted st3 @ [(message, obj_get (env st) ''msghostOrigin'')] \<rparr>)
          | Some e \<Rightarrow> (deferred, settle deferred (Reject e) (clearPending msgid st3))))"

text \<open>The callback of the timer \<open>tid\<close> runs, if that timer is still live.\<close>

definition timer_fires :: "nat \<Rightarrow> bridge \<Rightarrow> bridge" where
  "timer_fires tid st =
    (case timers st tid of
       None \<Rightarrow> st
     | Some t \<Rightarrow>
        (let st1 = st\<lparr> timers := (timers st)(tid := None) \<rparr>;
             st2 = clearPending (t_msgid t) st1
         in settle (t_deferred t) (Reject (timeout_error t)) st2))"

text \<open>\<^verbatim>\<open>pendingRequests.get(message.callback)\<close>: the keys of the map are strings.\<close>

definition pending_get :: "bridge \<Rightarrow> jsval \<Rightarrow> pending_entry option" where
  "pending_get st callback = (case callback of JStr s \<Rightarrow> pendingRequests st s | _ \<Rightarrow> None)"

definition callback_key :: "jsval \<Rightarrow> string" where
  "callback_key callback = (case callback of JStr s \<Rightarrow> s | _ \<Rightarrow> [])"

text \<open>\<^verbatim>\<open>messageHandler(event)\<close>, the one listener of the window.\<close>

definition messageHandler :: "(string \<Rightarrow> jsval option) \<Rightarrow> message_event \<Rightarrow> bridge \<Rightarrow> bridge" where
  "messageHandler json_parse event st =
    (if \<not> isTrustedEvent st event then st
     else
      (let (message, warned) = parseMessageData json_parse (ev_data event);
           st1 = (if warned
                  then st\<lparr> console := console st @ [''Cannot parse postMessage payload (expected JSON string).''] \<rparr>
                  else st)
       in if \<not> truthy message then st1
          else if truthy (js_prop message ''callback'')
          then (case pending_get st1 (js_prop message ''callback'') of
                  None \<Rightarrow> st1
                | Some entry \<Rightarrow>
                    settle (pe_deferred entry) (Resolve (js_prop message ''payload''))
                      (clearPending (callback_key (js_prop message ''callback'')) st1))
          else if is_string (js_prop message ''name'') \<and> truthy (js_prop message ''name'')
          then trigger (js_prop message ''name'') (js_prop message ''payload'') st1
          else st1))"

subsection \<open>Initialisation\<close>

text \<open>
  \<^verbatim>\<open>gadget.collectData()\<close> with the callbacks that the initialisation hangs on it: when the
  request has settled already (it was rejected at once) they run now, otherwise they wait
  for its Deferred.
\<close>

definition first_settlement :: "bridge \<Rightarrow> nat \<Rightarrow> settlement option" where
  "first_settlement st d = map_of (settled st) d"

definition collectData :: "(string \<Rightarrow> string option) \<Rightarrow> location \<Rightarrow> string \<Rightarrow> jsval option
    \<Rightarrow> bridge \<Rightarrow> bridge" where
  "collectData url_origin loc msgid thrown st =
    (let urlData = getUrlData loc;
         st1 = st\<lparr> env := gadget_set (env st) (JObj urlData) JUndef \<rparr>;
         st2 = st1\<lparr> env := obj_set (env st1) ''msghostOrigin''
                  (normalizeOrigin url_origin (loc_protocol loc) (obj_get (env st1) ''msghost'')) \<rparr>;
         (d, st3) = sendMessageToTop ''get-environment'' JUndef JUndef msgid thrown st2
     in case first_settlement st3 d of
          None \<Rightarrow> st3\<lparr> init_chain := Some (d, urlData) \<rparr>
        | Some s \<Rightarrow> run_init_chain urlData s st3)"

subsection \<open>Runs\<close>

text \<open>What can happen to the page after it has loaded: the application sends a request,
  sets a property with \<^verbatim>\<open>gadget.set\<close> or asks for readiness, a message arrives, a timer
  fires.\<close>

datatype action =
    Send string jsval jsval string "jsval option"
  | SetProp jsval jsval
  | Ready nat
  | Message message_event
  | TimerFires nat

fun step :: "(string \<Rightarrow> jsval option) \<Rightarrow> action \<Rightarrow> bridge \<Rightarrow> bridge" where
  "step json_parse (Send name payload opt_timeoutMs msgid thrown) st =
     snd (sendMessageToTop name payload opt_timeoutMs msgid thrown st)"
| "step json_parse (SetProp arg0 arg1) st = st\<lparr> env := gadget_set (env st) arg0 arg1 \<rparr>"
| "step json_parse (Ready callback) st = ready callback st"
| "step json_parse (Message event) st = messageHandler json_parse event st"
| "step json_parse (TimerFires tid) st = timer_fires tid st"

definition run :: "(string \<Rightarrow> jsval option) \<Rightarrow> action list \<Rightarrow> bridge \<Rightarrow> bridge" where
  "run json_parse acts st = fold (step json_parse) acts st"

section \<open>The host bridge with a listener per request (_lib/gadget.js)\<close>

text \<open>
  \<^verbatim>\<open>_lib/gadget.js\<close> is the same bridge without the registry and without
  \<^verbatim>\<open>normalizeOrigin\<close>: every call of \<^verbatim>\<open>sendMessageToTop\<close> attaches a listener of its own to the
  window and keeps its state in the variables \<^verbatim>\<open>timerId\<close> and \<^verbatim>\<open>cleanedUp\<close> of the call, and
  \<^verbatim>\<open>gadget.msghost\<close> is used as it was configured.  A call is named by the Deferred it
  returns.
\<close>

record request_vars =
  rv_name :: string
  rv_msgid :: string
  rv_timeoutMs :: jsnum
  rv_timerId :: "nat option"
  rv_cleanedUp :: bool

datatype listener = RequestListener nat | GlobalListener

record page =
  p_env :: obj
  p_calls :: "nat \<rightharpoonup> request_vars"
  p_listeners :: "listener list"
  p_timers :: "nat \<rightharpoonup> nat"
  p_next_timer :: nat
  p_next_deferred :: nat
  p_settled :: "(nat \<times> settlement) list"
  p_posted :: "(envelope \<times> jsval) list"
  p_triggered :: "(jsval \<times> jsval) list"
  p_console :: "string list"
  p_waiting :: "nat list"
  p_proceeded :: "nat list"
  p_init_chain :: "(nat \<times> obj) option"

definition initial_page :: page where
  "initial_page = \<lparr> p_env = [], p_calls = Map.empty, p_listeners = [], p_timers = Map.empty,
     p_next_timer = 0, p_next_deferred = 0, p_settled = [], p_posted = [], p_triggered = [],
     p_console = [], p_waiting = [], p_proceeded = [], p_init_chain = None \<rparr>"

text \<open>\<^verbatim>\<open>a === b\<close>.  Objects and arrays are equal only to themselves; the values compared
  here come from a message and from the page, so two of them count as different.\<close>

fun strict_equals :: "jsval \<Rightarrow> jsval \<Rightarrow> bool" where
  "strict_equals JUndef JUndef = True"
| "strict_equals JNull JNull = True"
| "strict_equals (JBool a) (JBool b) = (a = b)"
| "strict_equals (JNum a) (JNum b) = (a \<noteq> NaN \<and> a = b)"
| "strict_equals (JStr a) (JStr b) = (a = b)"
| "strict_equals _ _ = False"

text \<open>\<^verbatim>\<open>gadget.set(arg0, arg1)\<close>: the two tests follow each other, and \<^verbatim>\<open>typeof null\<close> is
  \<^verbatim>\<open>'object'\<close>, where the loop visits nothing.\<close>

definition set_lib :: "obj \<Rightarrow> jsval \<Rightarrow> jsval \<Rightarrow> obj" where
  "set_lib this arg0 arg1 =
    (let this1 = (case arg0 of JStr k \<Rightarrow> obj_set this k arg1 | _ \<Rightarrow> this)
     in case arg0 of
          JObj kvs \<Rightarrow> assign this1 (own_props arg0)
        | JArr xs \<Rightarrow> assign this1 (own_props arg0)
        | JNull \<Rightarrow> assign this1 []
        | _ \<Rightarrow> this1)"

definition trigger_lib :: "jsval \<Rightarrow> jsval \<Rightarrow> page \<Rightarrow> page" where
  "trigger_lib name payload st =
    (let st1 = st\<lparr> p_triggered := p_triggered st @ [(name, payload)] \<rparr>
     in if name = JStr ''ready''
        then st1\<lparr> p_proceeded := p_proceeded st1 @ p_waiting st1, p_waiting := [] \<rparr>
        else st1)"

definition ready_lib :: "nat \<Rightarrow> page \<Rightarrow> page" where
  "ready_lib callback st =
    (if truthy (obj_get (p_env st) ''isReady'')
     then st\<lparr> p_proceeded := p_proceeded st @ [callback] \<rparr>
     else st\<lparr> p_waiting := p_waiting st @ [callback] \<rparr>)"

subsection \<open>The initialisation chain\<close>

definition collectData_then_lib :: "obj \<Rightarrow> jsval \<Rightarrow> page \<Rightarrow> obj \<times> page" where
  "collectData_then_lib urlData data st =
    (let st1 = (if truthy data then st\<lparr> p_env := set_lib (p_env st) data JUndef \<rparr> else st)
     in (assign (assign [] (own_props (JObj urlData))) (own_props data), st1))"

definition init_then_lib :: "obj \<Rightarrow> page \<Rightarrow> page" where
  "init_then_lib data st =
    (let st1 = st\<lparr> p_console := p_console st @ [''is ready''] \<rparr>;
         st2 = st1\<lparr> p_env := obj_set (p_env st1) ''isReady'' (JBool True) \<rparr>
     in trigger_lib (JStr ''ready'') JUndef st2)"

definition init_fail_lib :: "jsval \<Rightarrow> page \<Rightarrow> page" where
  "init_fail_lib error st =
    (let st1 = st\<lparr> p_console := p_console st @ [''host env unavailable; continuing without env.''] \<rparr>;
         st2 = st1\<lparr> p_env := obj_set (p_env st1) ''isReady'' (JBool True) \<rparr>
     in trigger_lib (JStr ''ready'') JUndef st2)"

definition run_init_chain_lib :: "obj \<Rightarrow> settlement \<Rightarrow> page \<Rightarrow> page" where
  "run_init_chain_lib urlData s st =
    (case s of
       Resolve payload \<Rightarrow>
         (let (merged, st1) = collectData_then_lib urlData (getEnvironment_then payload) st
          in init_then_lib merged st1)
     | Reject error \<Rightarrow> init_fail_lib error st)"

subsection \<open>Deferreds\<close>

definition is_settled_lib :: "page \<Rightarrow> nat \<Rightarrow> bool" where
  "is_settled_lib st d = (d \<in> set (map fst (p_settled st)))"

definition settle_lib :: "nat \<Rightarrow> settlement \<Rightarrow> page \<Rightarrow> page" where
  "settle_lib d s st =
    (let first = \<not> is_settled_lib st d;
         st1 = st\<lparr> p_settled := p_settled st @ [(d, s)] \<rparr>
     in case p_init_chain st of
          None \<Rightarrow> st1
        | Some (d0, urlData) \<Rightarrow>
            if first \<and> d0 = d then run_init_chain_lib urlData s (st1\<lparr> p_init_chain := None \<rparr>) else st1)"

definition new_deferred_lib :: "page \<Rightarrow> nat \<times> page" where
  "new_deferred_lib st = (p_next_deferred st, st\<lparr> p_next_deferred := p_next_deferred st + 1 \<rparr>)"

definition resolutions_lib :: "page \<Rightarrow> nat \<Rightarrow> nat" where
  "resolutions_lib st d = length (filter (\<lambda>(d', s). d' = d \<and> (case s of Resolve v \<Rightarrow> True | Reject e \<Rightarrow> False)) (p_settled st))"

definition rejections_lib :: "page \<Rightarrow> nat \<Rightarrow> nat" where
  "rejections_lib st d = length (filter (\<lambda>(d', s). d' = d \<and> (case s of Resolve v \<Rightarrow> False | Reject e \<Rightarrow> True)) (p_settled st))"

definition first_settlement_lib :: "page \<Rightarrow> nat \<Rightarrow> settlement option" where
  "first_settlement_lib st d = map_of (p_settled st) d"

subsection \<open>Requests and responses\<close>

text \<open>\<^verbatim>\<open>isTrustedEvent(event)\<close>\<close>

definition isTrustedEvent_lib :: "page \<Rightarrow> message_event \<Rightarrow> bool" where
  "isTrustedEvent_lib st event =
     (ev_source_is_top event \<and> strict_equals (ev_origin event) (obj_get (p_env st) ''msghost''))"

text \<open>\<^verbatim>\<open>cleanup()\<close> of the call \<open>k\<close>\<close>

definition cleanup :: "nat \<Rightarrow> page \<Rightarrow> page" where
  "cleanup k st =
    (case p_calls st k of
       None \<Rightarrow> st
     | Some v \<Rightarrow>
        if rv_cleanedUp v then st
        else
         (let st1 = st\<lparr> p_calls := (p_calls st)(k \<mapsto> v\<lparr> rv_cleanedUp := True \<rparr>) \<rparr>;
              st2 = (case rv_timerId v of
                       None \<Rightarrow> st1
                     | Some tid \<Rightarrow> st1\<lparr> p_timers := (p_timers st1)(tid := None) \<rparr>)
          in st2\<lparr> p_listeners := filter (\<lambda>l. l \<noteq> RequestListener k) (p_listeners st2) \<rparr>))"

definition missing_msghost_error_lib :: "string \<Rightarrow> string \<Rightarrow> jsval" where
  "missing_msghost_error_lib name msgid = JObj
     [(''code'', JStr ''missing_msghost''),
      (''message'', JStr ''gadget.msghost is not set; cannot postMessage() safely.''),
      (''name'', JStr name),
      (''callback'', JStr msgid)]"

definition timeout_error_lib :: "request_vars \<Rightarrow> jsval" where
  "timeout_error_lib v = JObj
     [(''code'', JStr ''timeout''),
      (''message'', JStr ''Timed out waiting for host response.''),
      (''name'', JStr (rv_name v)),
      (''callback'', JStr (rv_msgid v)),
      (''timeoutMs'', JNum (rv_timeoutMs v))]"

definition request_timeout_lib :: "page \<Rightarrow> jsval \<Rightarrow> jsnum" where
  "request_timeout_lib st opt_timeoutMs =
    (case opt_timeoutMs of
       JNum n \<Rightarrow> n
     | _ \<Rightarrow> (case obj_get (p_env st) ''requestTimeoutMs'' of JNum n \<Rightarrow> n | _ \<Rightarrow> Fin 15000))"

text \<open>
  \<^verbatim>\<open>sendMessageToTop(name, payload, options)\<close>.  \<open>msgid\<close> is the string that
  \<^verbatim>\<open>Math.random().toString().slice(2)\<close> gives and \<open>thrown\<close> the exception of \<^verbatim>\<open>postMessage\<close>, if
  it throws.
\<close>

definition sendMessageToTop_lib :: "string \<Rightarrow> jsval \<Rightarrow> jsval \<Rightarrow> string \<Rightarrow> jsval option \<Rightarrow> page
    \<Rightarrow> nat \<times> page" where
  "sendMessageToTop_lib name payload opt_timeoutMs msgid thrown st =
    (let timeoutMs = request_timeout_lib st opt_timeoutMs;
         message = \<lparr> m_name = name, m_gid = obj_get (p_env st) ''gid'',
                      m_origin = obj_get (p_env st) ''url'', m_token = obj_get (p_env st) ''token'',
                      m_place = obj_get (p_env st) ''place'', m_payload = payload,
                      m_callback = msgid \<rparr>;
         (deferred, st1) = new_deferred_lib st
     in if \<not> truthy (obj_get (p_env st) ''msghost'')
        then (deferred, settle_lib deferred (Reject (missing_msghost_error_lib name msgid)) st1)
        else
         (let vars = \<lparr> rv_name = name, rv_msgid = msgid, rv_timeoutMs = timeoutMs,
                        rv_timerId = None, rv_cleanedUp = False \<rparr>;
              st2 = st1\<lparr> p_calls := (p_calls st1)(deferred \<mapsto> vars),
                         p_listeners := p_listeners st1 @ [RequestListener deferred] \<rparr>;
              st3 = (if finite_positive timeoutMs
                     then (let timerId = Suc (p_next_timer st2)
                           in st2\<lparr> p_timers := (p_timers st2)(timerId \<mapsto> deferred),
                                   p_next_timer := timerId,
                                   p_calls := (p_calls st2)(deferred \<mapsto> vars\<lparr> rv_timerId := Some timerId \<rparr>) \<rparr>)
                     else st2)
          in case thrown of
               None \<Rightarrow> (deferred, st3\<lparr> p_posted := p_posted st3 @ [(message, obj_get (p_env st) ''msghost'')] \<rparr>)
             | Some e \<Rightarrow> (deferred, settle_lib deferred (Reject e) (cleanup deferred st3))))"

text \<open>The callback of the timer \<open>tid\<close> runs, if that timer is still live.\<close>

definition timer_fires_lib :: "nat \<Rightarrow> page \<Rightarrow> page" where
  "timer_fires_lib tid st =
    (case p_timers st tid of
       None \<Rightarrow> st
     | Some k \<Rightarrow>
        (let st1 = st\<lparr> p_timers := (p_timers st)(tid := None) \<rparr>;
             st2 = cleanup k st1
         in case p_calls st k of
              None \<Rightarrow> st2
            | Some v \<Rightarrow> settle_lib k (Reject (timeout_error_lib v)) st2))"

text \<open>\<^verbatim>\<open>_messageHandler(event)\<close> of the call \<open>k\<close>\<close>

definition request_listener :: "(string \<Rightarrow> jsval option) \<Rightarrow> nat \<Rightarrow> message_event \<Rightarrow> page \<Rightarrow> page" where
  "request_listener json_parse k event st =
    (case p_calls st k of
       None \<Rightarrow> st
     | Some v \<Rightarrow>
        if \<not> isTrustedEvent_lib st event then st
        else
         (let (parsed, warned) = parseMessageData json_parse (ev_data event);
              st1 = (if warned then st\<lparr> p_console := p_console st @ [''Cannot parse message:''] \<rparr> else st)
          in if \<not> truthy parsed then st1
             else if strict_equals (js_prop parsed ''callback'') (JStr (rv_msgid v))
             then settle_lib k (Resolve (js_prop parsed ''payload'')) (cleanup k st1)
             else st1))"

text \<open>\<^verbatim>\<open>messageHandler(event)\<close>, the listener for the events the host broadcasts.\<close>

definition messageHandler_lib :: "(string \<Rightarrow> jsval option) \<Rightarrow> message_event \<Rightarrow> page \<Rightarrow> page" where
  "messageHandler_lib json_parse event st =
    (if \<not> isTrustedEvent_lib st event then st
     else
      (let (message, warned) = parseMessageData json_parse (ev_data event);
           st1 = (if warned then st\<lparr> p_console := p_console st @ [''Cannot parse message:''] \<rparr> else st)
       in if \<not> truthy message then st1
          else if truthy (js_prop message ''callback'') then st1
          else trigger_lib (js_prop message ''name'') (js_prop message ''payload'') st1))"

text \<open>The window hands a message to the listeners that were attached when it arrived, in
  the order of their attachment, leaving out those removed in the meantime.\<close>

fun deliver :: "(string \<Rightarrow> jsval option) \<Rightarrow> listener \<Rightarrow> message_event \<Rightarrow> page \<Rightarrow> page" where
  "deliver json_parse (RequestListener k) event st = request_listener json_parse k event st"
| "deliver json_parse GlobalListener event st = messageHandler_lib json_parse event st"

definition dispatch :: "(string \<Rightarrow> jsval option) \<Rightarrow> message_event \<Rightarrow> page \<Rightarrow> page" where
  "dispatch json_parse event st =
     fold (\<lambda>l s. if l \<in> set (p_listeners s) then deliver json_parse l event s else s) (p_listeners st) st"

subsection \<open>Initialisation\<close>

text \<open>\<^verbatim>\<open>gadget.collectData()\<close> with the callbacks of the initialisation, and the script as a
  whole, which attaches \<^verbatim>\<open>messageHandler\<close> last.\<close>

definition collectData_lib :: "location \<Rightarrow> string \<Rightarrow> jsval option \<Rightarrow> page \<Rightarrow> page" where
  "collectData_lib loc msgid thrown st =
    (let urlData = getUrlData loc;
         st1 = st\<lparr> p_env := set_lib (p_env st) (JObj urlData) JUndef \<rparr>;
         (d, st2) = sendMessageToTop_lib ''get-environment'' JUndef JUndef msgid thrown st1
     in case first_settlement_lib st2 d of
          None \<Rightarrow> st2\<lparr> p_init_chain := Some (d, urlData) \<rparr>
        | Some s \<Rightarrow> run_init_chain_lib urlData s st2)"

definition load_lib :: "location \<Rightarrow> string \<Rightarrow> jsval option \<Rightarrow> page" where
  "load_lib loc msgid thrown =
    (let st = collectData_lib loc msgid thrown initial_page
     in st\<lparr> p_listeners := p_listeners st @ [GlobalListener] \<rparr>)"

fun step_lib :: "(string \<Rightarrow> jsval option) \<Rightarrow> action \<Rightarrow> page \<Rightarrow> page" where
  "step_lib json_parse (Send name payload opt_timeoutMs msgid thrown) st =
     snd (sendMessageToTop_lib name payload opt_timeoutMs msgid thrown st)"
| "step_lib json_parse (SetProp arg0 arg1) st = st\<lparr> p_env := set_lib (p_env st) arg0 arg1 \<rparr>"
| "step_lib json_parse (Ready callback) st = ready_lib callback st"
| "step_lib json_parse (Message event) st = dispatch json_parse event st"
| "step_lib json_parse (TimerFires tid) st = timer_fires_lib tid st"

definition run_lib :: "(string \<Rightarrow> jsval option) \<Rightarrow> action list \<Rightarrow> page \<Rightarrow> page" where
  "run_lib json_parse acts st = fold (step_lib json_parse) acts st"

subsection \<open>Counting settlements; the bookkeeping invariant\<close>

definition settle_count :: "bridge \<Rightarrow> nat \<Rightarrow> nat" where
  "settle_count st d = length (filter (\<lambda>(d', s). d' = d) (settled st))"


text \<open>The state in which \<^verbatim>\<open>sendMessageToTop\<close> reaches its \<^verbatim>\<open>try\<close> block: the request is
  registered and its timer, if it has one, is started.\<close>

definition registered :: "string \<Rightarrow> string \<Rightarrow> jsnum \<Rightarrow> bridge \<Rightarrow> bridge" where
  "registered name msgid timeoutMs st =
    (let st1 = st\<lparr> next_deferred := next_deferred st + 1 \<rparr>;
         st2 = st1\<lparr> pendingRequests := (pendingRequests st1)
                 (msgid \<mapsto> \<lparr> pe_deferred = next_deferred st, pe_timerId = None, pe_name = name \<rparr>) \<rparr>
     in if finite_positive timeoutMs
        then st2\<lparr> timers := (timers st2)
                     (Suc (next_timer st2) \<mapsto> \<lparr> t_msgid = msgid, t_deferred = next_deferred st,
                                               t_name = name, t_timeoutMs = timeoutMs \<rparr>),
                  next_timer := Suc (next_timer st2),
                  pendingRequests := (pendingRequests st2)
                     (msgid \<mapsto> \<lparr> pe_deferred = next_deferred st,
                                 pe_timerId = Some (Suc (next_timer st2)), pe_name = name \<rparr>) \<rparr>
        else st2)"












subsection \<open>An example page\<close>

text \<open>
  A gadget served from \<^verbatim>\<open>https://gadgets.example.com/apps/demo/index.html\<close> with the query
  \<^verbatim>\<open>?msghost=https://cms.example.com/11/&gid=g1\<close>, in a browser whose \<^verbatim>\<open>URL\<close> gives this
  address its origin and rejects every other string.
\<close>

definition example_location :: location where
  "example_location = \<lparr> loc_origin = ''https://gadgets.example.com'',
     loc_pathname = ''/apps/demo/index.html'',
     loc_params = [(''msghost'', ''https://cms.example.com/11/''), (''gid'', ''g1'')],
     loc_protocol = ''https:'' \<rparr>"

definition example_url_origin :: "string \<Rightarrow> string option" where
  "example_url_origin s =
     (if s = ''https://cms.example.com/11/'' then Some ''https://cms.example.com'' else None)"

definition example_page :: bridge where
  "example_page = collectData example_url_origin example_location ''id-0'' None initial_bridge"

subsection \<open>Properties of the bridge with a listener per request\<close>

definition settle_count_lib :: "page \<Rightarrow> nat \<Rightarrow> nat" where
  "settle_count_lib st d = length (filter (\<lambda>(d', s). d' = d) (p_settled st))"

text \<open>
  What holds in every state this bridge reaches: a Deferred is settled at most once and
  only after it was created; a listener or a timer that is still live belongs to a call
  that has not been cleaned up and whose Deferred is unsettled.
\<close>

definition consistent_lib :: "page \<Rightarrow> bool" where
  "consistent_lib st \<longleftrightarrow>
     (\<forall>d. settle_count_lib st d \<le> 1)
   \<and> (\<forall>d s. (d, s) \<in> set (p_settled st) \<longrightarrow> d < p_next_deferred st)
   \<and> (\<forall>k v. p_calls st k = Some v \<longrightarrow> k < p_next_deferred st)
   \<and> (\<forall>k. RequestListener k \<in> set (p_listeners st) \<longrightarrow>
         (\<exists>v. p_calls st k = Some v \<and> \<not> rv_cleanedUp v) \<and> settle_count_lib st k = 0)
   \<and> (\<forall>tid k. p_timers st tid = Some k \<longrightarrow>
         (\<exists>v. p_calls st k = Some v \<and> \<not> rv_cleanedUp v \<and> rv_timerId v = Some tid)
         \<and> settle_count_lib st k = 0 \<and> tid \<le> p_next_timer st)"

text \<open>The state in which \<^verbatim>\<open>sendMessageToTop\<close> calls \<^verbatim>\<open>postMessage\<close>: the Deferred is created,
  the listener attached and the timer started.\<close>

definition registered_lib :: "string \<Rightarrow> string \<Rightarrow> jsnum \<Rightarrow> page \<Rightarrow> page" where
  "registered_lib name msgid timeoutMs st =
    (let st1 = st\<lparr> p_next_deferred := p_next_deferred st + 1 \<rparr>;
         vars = \<lparr> rv_name = name, rv_msgid = msgid, rv_timeoutMs = timeoutMs,
                   rv_timerId = None, rv_cleanedUp = False \<rparr>;
         st2 = st1\<lparr> p_calls := (p_calls st1)(p_next_deferred st \<mapsto> vars),
                    p_listeners := p_listeners st1 @ [RequestListener (p_next_deferred st)] \<rparr>
     in if finite_positive timeoutMs
        then st2\<lparr> p_timers := (p_timers st2)(Suc (p_next_timer st2) \<mapsto> p_next_deferred st),
                  p_next_timer := Suc (p_next_timer st2),
                  p_calls := (p_calls st2)(p_next_deferred st \<mapsto> vars\<lparr> rv_timerId := Some (Suc (p_next_timer st2)) \<rparr>) \<rparr>
        else st2)"

text \<open>The example page of above, loaded with this bridge.\<close>

definition example_page_lib :: page where
  "example_page_lib = load_lib example_location ''4711'' None"
section \<open>Properties of the API client\<close>

lemma obj_get_set: "obj_get (obj_set ob k v) k' = (if k' = k then v else obj_get ob k')"
  by (simp add: obj_get_def obj_set_def update_conv')

lemma str_includes_iff: "str_includes s t \<longleftrightarrow> (\<exists>p q. s = p @ t @ q)"
proof (induction s)
  case Nil
  then show ?case by auto
next
  case (Cons c s)
  show ?case
  proof
    assume "str_includes (c # s) t"
    then consider "prefix t (c # s)" | "str_includes s t" by auto
    then show "\<exists>p q. c # s = p @ t @ q"
    proof cases
      case 1
      then obtain q where "c # s = t @ q" by (auto simp: prefix_def)
      then have "c # s = [] @ t @ q" by simp
      then show ?thesis by blast
    next
      case 2
      with Cons obtain p q where "s = p @ t @ q" by blast
      then have "c # s = (c # p) @ t @ q" by simp
      then show ?thesis by blast
    qed
  next
    assume "\<exists>p q. c # s = p @ t @ q"
    then obtain p q where pq: "c # s = p @ t @ q" by blast
    show "str_includes (c # s) t"
    proof (cases p)
      case Nil
      with pq have "prefix t (c # s)" by (simp add: prefix_def)
      then show ?thesis by simp
    next
      case (Cons a p')
      with pq have "s = p' @ t @ q" by simp
      with Cons.IH have "str_includes s t" by blast
      then show ?thesis by simp
    qed
  qed
qed

lemma retriable_code_iff:
  "retriable_code c \<longleftrightarrow> (\<exists>s. c = JStr s \<and> str_includes s ''TIMEOUT'')"
  by (cases c) (simp_all add: retriable_code_def retryCodes_def)

lemma ring_Done:
  "ajax count = Done v \<Longrightarrow> ring gadget m e ps ajax rnd retries delay count =
     \<lparr> outcome = Resolved v, requests = [make_request gadget m e ps], waits = [], body = None \<rparr>"
  by (subst ring.simps) (simp add: Let_def)

lemma ring_Fail_stop:
  "ajax count = Fail x s er \<Longrightarrow>
   \<not> (truthy (responseJSON x) \<and> retriable_code (js_prop (responseJSON x) ''code'') \<and> int count < retries) \<Longrightarrow>
   ring gadget m e ps ajax rnd retries delay count =
     \<lparr> outcome = Rejected x s er, requests = [make_request gadget m e ps], waits = [],
       body = (if truthy (responseJSON x) \<and> js_prop (responseJSON x) ''code'' = JStr ''SESSION_NOT_FOUND''
               then Some reconnect_html else None) \<rparr>"
  by (subst ring.simps) (simp add: Let_def)

lemma ring_stop:
  assumes "\<not> (retriable_failure a \<and> int count < retries)" and "a = ajax count"
  shows "ring gadget m e ps ajax rnd retries delay count =
     (case a of
        Done v \<Rightarrow> \<lparr> outcome = Resolved v, requests = [make_request gadget m e ps], waits = [], body = None \<rparr>
      | Fail x s er \<Rightarrow> \<lparr> outcome = Rejected x s er, requests = [make_request gadget m e ps], waits = [],
          body = (if truthy (responseJSON x) \<and> js_prop (responseJSON x) ''code'' = JStr ''SESSION_NOT_FOUND''
               then Some reconnect_html else None) \<rparr>)"
proof (cases a)
  case (Done v)
  with assms(2) have "ajax count = Done v" by simp
  then show ?thesis using Done by (simp add: ring_Done)
next
  case (Fail x s er)
  with assms(2) have f: "ajax count = Fail x s er" by simp
  from assms(1) Fail have "\<not> (truthy (responseJSON x) \<and> retriable_code (js_prop (responseJSON x) ''code'')
        \<and> int count < retries)"
    by (auto simp: retriable_failure_def)
  with f show ?thesis using Fail by (simp add: ring_Fail_stop)
qed

lemma ring_stop_length:
  assumes "\<not> (retriable_failure (ajax count) \<and> int count < retries)"
  shows "length (requests (ring gadget m e ps ajax rnd retries delay count)) = 1"
    and "waits (ring gadget m e ps ajax rnd retries delay count) = []"
  using ring_stop[where a="ajax count" and ajax=ajax and count=count, OF assms refl, of gadget m e ps rnd delay]
  by (cases "ajax count"; simp)+

lemma retriable_failureE:
  assumes "retriable_failure a"
  obtains x s er where "a = Fail x s er" "truthy (responseJSON x)"
    "retriable_code (js_prop (responseJSON x) ''code'')"
  using assms by (cases a) (auto simp: retriable_failure_def)

lemma ring_retry_step:
  assumes "retriable_failure (ajax count)" "int count < retries"
  shows "requests (ring gadget m e ps ajax rnd retries delay count) =
           make_request gadget m e ps # requests (ring gadget m e ps ajax rnd retries delay (count + 1))"
    and "waits (ring gadget m e ps ajax rnd retries delay count) =
           backoff delay (rnd count) count # waits (ring gadget m e ps ajax rnd retries delay (count + 1))"
    and "outcome (ring gadget m e ps ajax rnd retries delay count) =
           outcome (ring gadget m e ps ajax rnd retries delay (count + 1))"
proof -
  from assms(1) obtain x s er where f: "ajax count = Fail x s er" "truthy (responseJSON x)"
    "retriable_code (js_prop (responseJSON x) ''code'')" by (rule retriable_failureE[of "ajax count"])
  show "requests (ring gadget m e ps ajax rnd retries delay count) =
           make_request gadget m e ps # requests (ring gadget m e ps ajax rnd retries delay (count + 1))"
    using f assms(2) by (subst ring.simps) (simp add: Let_def)
  show "waits (ring gadget m e ps ajax rnd retries delay count) =
           backoff delay (rnd count) count # waits (ring gadget m e ps ajax rnd retries delay (count + 1))"
    using f assms(2) by (subst ring.simps) (simp add: Let_def)
  show "outcome (ring gadget m e ps ajax rnd retries delay count) =
           outcome (ring gadget m e ps ajax rnd retries delay (count + 1))"
    using f assms(2) by (subst ring.simps) (simp add: Let_def)
qed


lemma ring_all_retriable:
  assumes "\<forall>k. retriable_failure (ajax k)" and "int count \<le> retries"
  shows "int (length (requests (ring gadget m e ps ajax rnd retries delay count))) = retries - int count + 1"
  using assms(2)
proof (induction "nat (retries - int count)" arbitrary: count)
  case 0
  then have "\<not> (retriable_failure (ajax count) \<and> int count < retries)" by simp
  from ring_stop_length(1)[where ajax=ajax and count=count, OF this] show ?case using 0 by simp
next
  case (Suc n)
  then have lt: "int count < retries" by linarith
  have "n = nat (retries - int (count + 1))" using Suc.hyps(2) by linarith
  moreover have "int (count + 1) \<le> retries" using lt by linarith
  ultimately have "int (length (requests (ring gadget m e ps ajax rnd retries delay (count + 1))))
      = retries - int (count + 1) + 1" by (rule Suc.hyps(1))
  moreover have "retriable_failure (ajax count)" using assms(1) by blast
  ultimately show ?case using lt by (simp add: ring_retry_step(1))
qed

lemma ring_length_waits:
  "length (requests (ring gadget m e ps ajax rnd retries delay count)) =
     Suc (length (waits (ring gadget m e ps ajax rnd retries delay count)))"
proof (induction "nat (retries - int count)" arbitrary: count rule: less_induct)
  case less
  show ?case
  proof (cases "retriable_failure (ajax count) \<and> int count < retries")
    case True
    then have "nat (retries - int (count + 1)) < nat (retries - int count)" by linarith
    from less[OF this] show ?thesis using True by (simp add: ring_retry_step)
  next
    case False
    then show ?thesis by (simp add: ring_stop_length)
  qed
qed

lemma ring_retries_only_retriable:
  "Suc i < length (requests (ring gadget m e ps ajax rnd retries delay count)) \<Longrightarrow>
     retriable_failure (ajax (count + i)) \<and> int (count + i) < retries"
proof (induction i arbitrary: count)
  case 0
  have "retriable_failure (ajax count) \<and> int count < retries"
  proof (rule ccontr)
    assume "\<not> (retriable_failure (ajax count) \<and> int count < retries)"
    from ring_stop_length(1)[where ajax=ajax and count=count, OF this, of gadget m e ps rnd delay] 0 show False by simp
  qed
  then show ?case by simp
next
  case (Suc i)
  have r: "retriable_failure (ajax count) \<and> int count < retries"
  proof (rule ccontr)
    assume "\<not> (retriable_failure (ajax count) \<and> int count < retries)"
    from ring_stop_length(1)[where ajax=ajax and count=count, OF this, of gadget m e ps rnd delay] Suc.prems show False by simp
  qed
  then have "Suc i < length (requests (ring gadget m e ps ajax rnd retries delay (count + 1)))"
    using Suc.prems by (simp add: ring_retry_step(1))
  from Suc.IH[OF this] show ?case by simp
qed


lemma not_retriable_session: "\<not> retriable_code (JStr ''SESSION_NOT_FOUND'')"
  by (simp add: retriable_code_def retryCodes_def)

lemma ring_retry_step_body:
  assumes "retriable_failure (ajax count)" "int count < retries"
  shows "body (ring gadget m e ps ajax rnd retries delay count) =
     body (ring gadget m e ps ajax rnd retries delay (count + 1))"
proof -
  from assms(1) obtain x s er where f: "ajax count = Fail x s er" "truthy (responseJSON x)"
    "retriable_code (js_prop (responseJSON x) ''code'')" by (rule retriable_failureE[of "ajax count"])
  from f(3) have n: "js_prop (responseJSON x) ''code'' \<noteq> JStr ''SESSION_NOT_FOUND''"
    using not_retriable_session by auto
  show ?thesis using f n assms(2) by (subst ring.simps) (simp add: Let_def split: option.splits)
qed



















lemma ring_requests_same:
  "rq \<in> set (requests (ring gadget m e ps ajax rnd retries delay count)) \<Longrightarrow>
     rq = make_request gadget m e ps"
proof (induction "nat (retries - int count)" arbitrary: count rule: less_induct)
  case less
  show ?case
  proof (cases "retriable_failure (ajax count) \<and> int count < retries")
    case True
    then have "nat (retries - int (count + 1)) < nat (retries - int count)" by linarith
    from less(1)[OF this] less(2) show ?thesis using True by (auto simp: ring_retry_step(1))
  next
    case False
    from ring_stop[where a="ajax count" and ajax=ajax and count=count, OF False refl, of gadget m e ps rnd delay]
      less(2)
    show ?thesis by (cases "ajax count") simp_all
  qed
qed

lemma ring_session_not_found:
  assumes "ajax (count + i) = Fail x s er"
    and "js_prop (responseJSON x) ''code'' = JStr ''SESSION_NOT_FOUND''"
    and "i < length (requests (ring gadget m e ps ajax rnd retries delay count))"
  shows "body (ring gadget m e ps ajax rnd retries delay count) = Some reconnect_html
       \<and> outcome (ring gadget m e ps ajax rnd retries delay count) = Rejected x s er
       \<and> length (requests (ring gadget m e ps ajax rnd retries delay count)) = Suc i"
  using assms(1,3)
proof (induction i arbitrary: count)
  case 0
  then have f: "ajax count = Fail x s er" by simp
  have t: "truthy (responseJSON x)" using assms(2) by (cases "responseJSON x") auto
  have "\<not> (retriable_failure (ajax count) \<and> int count < retries)"
    using f assms(2) not_retriable_session by (simp add: retriable_failure_def)
  from ring_stop[where a="ajax count" and ajax=ajax and count=count, OF this refl, of gadget m e ps rnd delay]
  show ?case using f t assms(2) by simp
next
  case (Suc i)
  have r: "retriable_failure (ajax count) \<and> int count < retries"
  proof (rule ccontr)
    assume "\<not> (retriable_failure (ajax count) \<and> int count < retries)"
    from ring_stop_length(1)[where ajax=ajax and count=count, OF this, of gadget m e ps rnd delay] Suc.prems
    show False by simp
  qed
  have "ajax (count + 1 + i) = Fail x s er" using Suc.prems(1) by simp
  moreover have "i < length (requests (ring gadget m e ps ajax rnd retries delay (count + 1)))"
    using Suc.prems(2) r by (simp add: ring_retry_step(1))
  ultimately have "body (ring gadget m e ps ajax rnd retries delay (count + 1)) = Some reconnect_html
       \<and> outcome (ring gadget m e ps ajax rnd retries delay (count + 1)) = Rejected x s er
       \<and> length (requests (ring gadget m e ps ajax rnd retries delay (count + 1))) = Suc i"
    by (rule Suc.IH)
  then show ?case using r by (simp add: ring_retry_step ring_retry_step_body)
qed


lemma ring_all_retriable_outcome:
  assumes "\<forall>k. retriable_failure (ajax k)" and "int count \<le> retries"
  shows "outcome (ring gadget m e ps ajax rnd retries delay count) =
     (case ajax (nat retries) of Done v \<Rightarrow> Resolved v | Fail x s er \<Rightarrow> Rejected x s er)"
  using assms(2)
proof (induction "nat (retries - int count)" arbitrary: count)
  case 0
  then have c: "count = nat retries" by simp
  from 0 have "\<not> (retriable_failure (ajax count) \<and> int count < retries)" by simp
  from ring_stop[where a="ajax count" and ajax=ajax and count=count, OF this refl, of gadget m e ps rnd delay]
  show ?case unfolding c by (cases "ajax (nat retries)") simp_all
next
  case (Suc n)
  then have lt: "int count < retries" by linarith
  have "n = nat (retries - int (count + 1))" using Suc.hyps(2) by linarith
  moreover have "int (count + 1) \<le> retries" using lt by linarith
  ultimately have "outcome (ring gadget m e ps ajax rnd retries delay (count + 1)) =
     (case ajax (nat retries) of Done v \<Rightarrow> Resolved v | Fail x s er \<Rightarrow> Rejected x s er)"
    by (rule Suc.hyps(1))
  moreover have "retriable_failure (ajax count)" using assms(1) by blast
  ultimately show ?case using lt by (simp add: ring_retry_step(3))
qed

lemma retriable_failure_iff:
  "retriable_failure a \<longleftrightarrow>
     (\<exists>x s er c p q. a = Fail x s er \<and> js_prop (responseJSON x) ''code'' = JStr c
        \<and> c = p @ ''TIMEOUT'' @ q)"
proof
  assume "retriable_failure a"
  then obtain x s er where f: "a = Fail x s er" "retriable_code (js_prop (responseJSON x) ''code'')"
    by (rule retriable_failureE)
  from f(2) obtain c where c: "js_prop (responseJSON x) ''code'' = JStr c" "str_includes c ''TIMEOUT''"
    by (auto simp: retriable_code_iff)
  from c(2) obtain p q where "c = p @ ''TIMEOUT'' @ q" by (auto simp: str_includes_iff)
  with f(1) c(1) show "\<exists>x s er c p q. a = Fail x s er \<and> js_prop (responseJSON x) ''code'' = JStr c
        \<and> c = p @ ''TIMEOUT'' @ q" by blast
next
  assume "\<exists>x s er c p q. a = Fail x s er \<and> js_prop (responseJSON x) ''code'' = JStr c
        \<and> c = p @ ''TIMEOUT'' @ q"
  then obtain x s er c p q where f: "a = Fail x s er" "js_prop (responseJSON x) ''code'' = JStr c"
     "c = p @ ''TIMEOUT'' @ q" by blast
  have t: "truthy (responseJSON x)" using f(2) by (cases "responseJSON x") auto
  have "str_includes c ''TIMEOUT''" using f(3) str_includes_iff by blast
  then have "retriable_code (JStr c)" by (simp add: retriable_code_iff)
  with f t show "retriable_failure a" by (simp add: retriable_failure_def)
qed

lemma call_result:
  "cs_result (call gadget h config ajax rnd) =
     ring gadget (cc_method config) (cc_endpoint config)
       (heap_obj (cs_heap (call gadget h config ajax rnd)) (the (cc_data (cs_config (call gadget h config ajax rnd)))))
       ajax rnd (nullish (cc_retries config) 3) (nullish (cc_delay config) 1000) 0"
  by (simp add: call_def Let_def split: option.splits prod.splits)



lemma call_requests_length: "0 < length (requests (cs_result (call gadget h config ajax rnd)))"
  unfolding call_result by (simp add: ring_length_waits)

lemma call_requests_url:
  "rq \<in> set (requests (cs_result (call gadget h config ajax rnd))) \<Longrightarrow>
     rq_url rq = to_string (obj_get gadget ''apihost'') @ cc_endpoint config
     \<and> rq_type rq = cc_method config
     \<and> rq_header_token rq = obj_get gadget ''token''"
  unfolding call_result by (auto dest!: ring_requests_same simp: make_request_def)

lemma heap_obj_heap_set:
  "objs h a = Some ob \<Longrightarrow> heap_obj (heap_set h a k v) a = obj_set ob k v"
  by (simp add: heap_obj_def heap_set_def)

lemma call_heap_data:
  assumes "cc_data config = Some a" "objs h a = Some ob"
  shows "heap_obj (cs_heap (call gadget h config ajax rnd)) a =
           obj_set ob ''authorization_token'' (obj_get gadget ''token'')"
  using assms by (simp add: call_def Let_def heap_obj_heap_set)

lemma call_heap_fresh:
  assumes "cc_data config = None"
  shows "cc_data (cs_config (call gadget h config ajax rnd)) = Some (next_addr h)
       \<and> heap_obj (cs_heap (call gadget h config ajax rnd)) (next_addr h) =
           [(''authorization_token'', obj_get gadget ''token'')]"
  using assms by (simp add: call_def Let_def alloc_def heap_obj_def heap_set_def obj_set_def)

lemma endpoint_method_heap:
  assumes "objs h a = Some ob"
  shows "heap_obj (cs_heap (endpoint_method api gadget h ep (Some a) marg rarg ajax rnd)) a =
           obj_set (fold (apply_dflt api) (defaults ep) ob) ''authorization_token'' (obj_get gadget ''token'')"
proof -
  define h2 where "h2 = h\<lparr> objs := (objs h)(a \<mapsto> fold (apply_dflt api) (defaults ep) ob) \<rparr>"
  have o: "objs h2 a = Some (fold (apply_dflt api) (defaults ep) ob)" by (simp add: h2_def)
  have c: "heap_obj (cs_heap (call gadget h2 cfg ajax rnd)) a =
           obj_set (fold (apply_dflt api) (defaults ep) ob) ''authorization_token'' (obj_get gadget ''token'')"
    if "cc_data cfg = Some a" for cfg
    using that o by (rule call_heap_data)
  show ?thesis
    using assms c by (cases "send ep") (simp_all add: endpoint_method_def Let_def h2_def get_def post_def)
qed

lemma endpoints_defaults:
  assumes "map_of endpoints name = Some ep"
  shows "defaults ep \<in> {
      [],
      [IfFalsy ''site'' ThisSite],
      [IfFalsy ''account'' ThisAccount],
      [IfFalsy ''account'' ThisAccount, IfFalsy ''site'' ThisSite],
      [IfFalsy ''user'' ThisUser],
      [IfFalsy ''type'' (Literal (JStr ''generic''))],
      [IfFalsy ''type'' (Literal (JStr ''generic'')), IfUndefined ''disabled'' (Literal (JBool False))],
      [IfUndefined ''all'' (Literal (JBool True)), IfFalsy ''site'' ThisSite],
      [IfFalsy ''site'' ThisSite, IfFalsy ''message'' (Literal (JStr ''Backup via CMS API''))],
      [IfFalsy ''site'' ThisSite, IfFalsy ''target'' ConfigSite],
      [IfFalsy ''site'' ThisSite, IfUndefined ''brokentags'' (Literal (JBool True))],
      [IfFalsy ''site'' ThisSite, IfUndefined ''overwrite'' (Literal (JBool True))],
      [IfFalsy ''site'' ThisSite, IfFalsy ''count'' (Literal (JNum (Fin 1000)))]}"
proof -
  from assms have "(name, ep) \<in> set endpoints" by (rule map_of_SomeD)
  then show ?thesis unfolding endpoints_def by auto
qed



lemma dflt_eval_case:
  "dflt_eval api c v = (case v of ThisSite \<Rightarrow> api_site api | ThisAccount \<Rightarrow> api_account api
                     | ThisUser \<Rightarrow> api_user api | ConfigSite \<Rightarrow> obj_get c ''site''
                     | Literal l \<Rightarrow> l)"
  by (cases v) simp_all

lemma dflt_eval_cong:
  "v = ConfigSite \<longrightarrow> obj_get c ''site'' = obj_get c' ''site'' \<Longrightarrow> dflt_eval api c v = dflt_eval api c' v"
  by (cases v) simp_all

lemma apply_dflt_get:
  "obj_get (apply_dflt api d ob) k =
     (if k = dflt_key d \<and> dflt_cond d ob then dflt_eval api ob (dflt_val d) else obj_get ob k)"
  by (cases d) (simp_all add: obj_get_set)

lemma dflt_cond_cong:
  "obj_get a (dflt_key d) = obj_get b (dflt_key d) \<Longrightarrow> dflt_cond d a = dflt_cond d b"
  by (cases d) simp_all

lemma dflt_mem:
  "IfFalsy k v = d \<longleftrightarrow> dflt_key d = k \<and> dflt_val d = v \<and> (\<forall>c. dflt_cond d c = (\<not> truthy (obj_get c k)))
      \<and> (\<forall>k' v'. d \<noteq> IfUndefined k' v')"
  "IfUndefined k v = d \<longleftrightarrow> dflt_key d = k \<and> dflt_val d = v \<and> (\<forall>c. dflt_cond d c = (obj_get c k = JUndef))
      \<and> (\<forall>k' v'. d \<noteq> IfFalsy k' v')"
  by (cases d; auto)+

lemma dflt_key_other:
  "(\<forall>v. IfFalsy k v \<noteq> d \<and> IfUndefined k v \<noteq> d) \<longleftrightarrow> k \<noteq> dflt_key d"
  by (cases d) auto

lemma defaults_none:
  assumes "ob' = obj_set ob ''authorization_token'' tok"
  shows "(\<forall>k v. IfFalsy k v \<in> set [] \<longrightarrow>
            obj_get ob' k =
              (if truthy (obj_get ob k) then obj_get ob k
               else (case v of ThisSite \<Rightarrow> api_site api | ThisAccount \<Rightarrow> api_account api
                     | ThisUser \<Rightarrow> api_user api | ConfigSite \<Rightarrow> obj_get ob' ''site''
                     | Literal l \<Rightarrow> l)))
       \<and> (\<forall>k v. IfUndefined k v \<in> set [] \<longrightarrow>
            obj_get ob' k =
              (if obj_get ob k \<noteq> JUndef then obj_get ob k
               else (case v of ThisSite \<Rightarrow> api_site api | ThisAccount \<Rightarrow> api_account api
                     | ThisUser \<Rightarrow> api_user api | ConfigSite \<Rightarrow> obj_get ob' ''site''
                     | Literal l \<Rightarrow> l)))
       \<and> (\<forall>k. k \<noteq> ''authorization_token'' \<and> (\<forall>v. IfFalsy k v \<notin> set [] \<and> IfUndefined k v \<notin> set [])
            \<longrightarrow> obj_get ob' k = obj_get ob k)"
  using assms by (simp add: obj_get_set)

lemma defaults_one:
  assumes o: "ob' = obj_set (apply_dflt api d ob) ''authorization_token'' tok"
    and v: "dflt_val d \<noteq> ConfigSite" and t: "dflt_key d \<noteq> ''authorization_token''"
  shows "(\<forall>k v. IfFalsy k v \<in> set [d] \<longrightarrow>
            obj_get ob' k =
              (if truthy (obj_get ob k) then obj_get ob k
               else (case v of ThisSite \<Rightarrow> api_site api | ThisAccount \<Rightarrow> api_account api
                     | ThisUser \<Rightarrow> api_user api | ConfigSite \<Rightarrow> obj_get ob' ''site''
                     | Literal l \<Rightarrow> l)))
       \<and> (\<forall>k v. IfUndefined k v \<in> set [d] \<longrightarrow>
            obj_get ob' k =
              (if obj_get ob k \<noteq> JUndef then obj_get ob k
               else (case v of ThisSite \<Rightarrow> api_site api | ThisAccount \<Rightarrow> api_account api
                     | ThisUser \<Rightarrow> api_user api | ConfigSite \<Rightarrow> obj_get ob' ''site''
                     | Literal l \<Rightarrow> l)))
       \<and> (\<forall>k. k \<noteq> ''authorization_token'' \<and> (\<forall>v. IfFalsy k v \<notin> set [d] \<and> IfUndefined k v \<notin> set [d])
            \<longrightarrow> obj_get ob' k = obj_get ob k)"
proof -
  have g: "obj_get ob' k =
     (if k = ''authorization_token'' then tok
      else if k = dflt_key d \<and> dflt_cond d ob then dflt_eval api ob (dflt_val d) else obj_get ob k)" for k
    unfolding o by (simp add: obj_get_set apply_dflt_get)
  have e: "dflt_eval api ob (dflt_val d) = dflt_eval api ob' (dflt_val d)"
    using v by (intro dflt_eval_cong) simp
  have 1: "obj_get ob' k = (if truthy (obj_get ob k) then obj_get ob k else dflt_eval api ob' v)"
    if "IfFalsy k v \<in> set [d]" for k v
  proof -
    from that have d: "dflt_key d = k" "dflt_val d = v" "dflt_cond d ob = (\<not> truthy (obj_get ob k))"
      by (simp_all add: dflt_mem)
    show ?thesis using g[of k] t e unfolding d by simp
  qed
  have 2: "obj_get ob' k = (if obj_get ob k \<noteq> JUndef then obj_get ob k else dflt_eval api ob' v)"
    if "IfUndefined k v \<in> set [d]" for k v
  proof -
    from that have d: "dflt_key d = k" "dflt_val d = v" "dflt_cond d ob = (obj_get ob k = JUndef)"
      by (simp_all add: dflt_mem)
    show ?thesis using g[of k] t e unfolding d by simp
  qed
  have 3: "obj_get ob' k = obj_get ob k"
    if "k \<noteq> ''authorization_token'' \<and> (\<forall>v. IfFalsy k v \<notin> set [d] \<and> IfUndefined k v \<notin> set [d])" for k
  proof -
    from that have "k \<noteq> dflt_key d" using dflt_key_other[of k d] by simp
    then show ?thesis using g[of k] that by simp
  qed
  show ?thesis using 1 2 3 unfolding dflt_eval_case by blast
qed

lemma defaults_two:
  assumes o: "ob' = obj_set (apply_dflt api d2 (apply_dflt api d1 ob)) ''authorization_token'' tok"
    and v1: "dflt_val d1 \<noteq> ConfigSite" and v2: "dflt_val d2 = ConfigSite \<longrightarrow> dflt_key d2 \<noteq> ''site''"
    and n: "dflt_key d1 \<noteq> dflt_key d2"
    and t: "dflt_key d1 \<noteq> ''authorization_token''" "dflt_key d2 \<noteq> ''authorization_token''"
  shows "(\<forall>k v. IfFalsy k v \<in> set [d1, d2] \<longrightarrow>
            obj_get ob' k =
              (if truthy (obj_get ob k) then obj_get ob k
               else (case v of ThisSite \<Rightarrow> api_site api | ThisAccount \<Rightarrow> api_account api
                     | ThisUser \<Rightarrow> api_user api | ConfigSite \<Rightarrow> obj_get ob' ''site''
                     | Literal l \<Rightarrow> l)))
       \<and> (\<forall>k v. IfUndefined k v \<in> set [d1, d2] \<longrightarrow>
            obj_get ob' k =
              (if obj_get ob k \<noteq> JUndef then obj_get ob k
               else (case v of ThisSite \<Rightarrow> api_site api | ThisAccount \<Rightarrow> api_account api
                     | ThisUser \<Rightarrow> api_user api | ConfigSite \<Rightarrow> obj_get ob' ''site''
                     | Literal l \<Rightarrow> l)))
       \<and> (\<forall>k. k \<noteq> ''authorization_token'' \<and> (\<forall>v. IfFalsy k v \<notin> set [d1, d2] \<and> IfUndefined k v \<notin> set [d1, d2])
            \<longrightarrow> obj_get ob' k = obj_get ob k)"
proof -
  define ob1 where "ob1 = apply_dflt api d1 ob"
  have c: "dflt_cond d2 ob1 = dflt_cond d2 ob"
    using n by (intro dflt_cond_cong) (simp add: ob1_def apply_dflt_get)
  have g: "obj_get ob' k =
     (if k = ''authorization_token'' then tok
      else if k = dflt_key d2 \<and> dflt_cond d2 ob then dflt_eval api ob1 (dflt_val d2)
      else if k = dflt_key d1 \<and> dflt_cond d1 ob then dflt_eval api ob (dflt_val d1) else obj_get ob k)" for k
  proof -
    have g2: "obj_get (apply_dflt api d2 ob1) k =
        (if k = dflt_key d2 \<and> dflt_cond d2 ob then dflt_eval api ob1 (dflt_val d2) else obj_get ob1 k)"
      unfolding apply_dflt_get c ..
    have g1: "obj_get ob1 k =
        (if k = dflt_key d1 \<and> dflt_cond d1 ob then dflt_eval api ob (dflt_val d1) else obj_get ob k)"
      unfolding ob1_def by (rule apply_dflt_get)
    have "obj_get ob' k = (if k = ''authorization_token'' then tok else obj_get (apply_dflt api d2 ob1) k)"
      unfolding o ob1_def by (simp add: obj_get_set)
    then show ?thesis unfolding g2 g1 .
  qed
  have e1: "dflt_eval api ob (dflt_val d1) = dflt_eval api ob' (dflt_val d1)"
    using v1 by (intro dflt_eval_cong) simp
  have s: "obj_get ob1 ''site'' = obj_get ob' ''site''" if "dflt_val d2 = ConfigSite"
  proof -
    from that v2 have "''site'' \<noteq> dflt_key d2" by auto
    then show ?thesis using g[of "''site''"] by (simp add: ob1_def apply_dflt_get)
  qed
  have e2: "dflt_eval api ob1 (dflt_val d2) = dflt_eval api ob' (dflt_val d2)"
    using s by (intro dflt_eval_cong) simp
  have 1: "obj_get ob' k = (if truthy (obj_get ob k) then obj_get ob k else dflt_eval api ob' v)"
    if "IfFalsy k v \<in> set [d1, d2]" for k v
  proof -
    from that consider "IfFalsy k v = d1" | "IfFalsy k v = d2" by auto
    then show ?thesis
    proof cases
      case 1
      then have d: "dflt_key d1 = k" "dflt_val d1 = v" "dflt_cond d1 ob = (\<not> truthy (obj_get ob k))"
        by (simp_all add: dflt_mem)
      show ?thesis using g[of k] t e1 n unfolding d by auto
    next
      case 2
      then have d: "dflt_key d2 = k" "dflt_val d2 = v" "dflt_cond d2 ob = (\<not> truthy (obj_get ob k))"
        by (simp_all add: dflt_mem)
      show ?thesis using g[of k] t e2 n unfolding d by auto
    qed
  qed
  have 2: "obj_get ob' k = (if obj_get ob k \<noteq> JUndef then obj_get ob k else dflt_eval api ob' v)"
    if "IfUndefined k v \<in> set [d1, d2]" for k v
  proof -
    from that consider "IfUndefined k v = d1" | "IfUndefined k v = d2" by auto
    then show ?thesis
    proof cases
      case 1
      then have d: "dflt_key d1 = k" "dflt_val d1 = v" "dflt_cond d1 ob = (obj_get ob k = JUndef)"
        by (simp_all add: dflt_mem)
      show ?thesis using g[of k] t e1 n unfolding d by auto
    next
      case 2
      then have d: "dflt_key d2 = k" "dflt_val d2 = v" "dflt_cond d2 ob = (obj_get ob k = JUndef)"
        by (simp_all add: dflt_mem)
      show ?thesis using g[of k] t e2 n unfolding d by auto
    qed
  qed
  have 3: "obj_get ob' k = obj_get ob k"
    if "k \<noteq> ''authorization_token'' \<and> (\<forall>v. IfFalsy k v \<notin> set [d1, d2] \<and> IfUndefined k v \<notin> set [d1, d2])" for k
  proof -
    from that have "k \<noteq> dflt_key d1" "k \<noteq> dflt_key d2"
      using dflt_key_other[of k d1] dflt_key_other[of k d2] by auto
    then show ?thesis using g[of k] that by simp
  qed
  show ?thesis using 1 2 3 unfolding dflt_eval_case by blast
qed

lemma defaults_applied:
  assumes "map_of endpoints name = Some ep"
    and o: "ob' = obj_set (fold (apply_dflt api) (defaults ep) ob) ''authorization_token'' tok"
  shows "(\<forall>k v. IfFalsy k v \<in> set (defaults ep) \<longrightarrow>
            obj_get ob' k =
              (if truthy (obj_get ob k) then obj_get ob k
               else (case v of ThisSite \<Rightarrow> api_site api | ThisAccount \<Rightarrow> api_account api
                     | ThisUser \<Rightarrow> api_user api | ConfigSite \<Rightarrow> obj_get ob' ''site''
                     | Literal l \<Rightarrow> l)))
       \<and> (\<forall>k v. IfUndefined k v \<in> set (defaults ep) \<longrightarrow>
            obj_get ob' k =
              (if obj_get ob k \<noteq> JUndef then obj_get ob k
               else (case v of ThisSite \<Rightarrow> api_site api | ThisAccount \<Rightarrow> api_account api
                     | ThisUser \<Rightarrow> api_user api | ConfigSite \<Rightarrow> obj_get ob' ''site''
                     | Literal l \<Rightarrow> l)))
       \<and> (\<forall>k. k \<noteq> ''authorization_token'' \<and> (\<forall>v. IfFalsy k v \<notin> set (defaults ep) \<and> IfUndefined k v \<notin> set (defaults ep))
            \<longrightarrow> obj_get ob' k = obj_get ob k)"
proof -
  let ?P = "\<lambda>ds. (\<forall>k v. IfFalsy k v \<in> set ds \<longrightarrow>
            obj_get ob' k =
              (if truthy (obj_get ob k) then obj_get ob k
               else (case v of ThisSite \<Rightarrow> api_site api | ThisAccount \<Rightarrow> api_account api
                     | ThisUser \<Rightarrow> api_user api | ConfigSite \<Rightarrow> obj_get ob' ''site''
                     | Literal l \<Rightarrow> l)))
       \<and> (\<forall>k v. IfUndefined k v \<in> set ds \<longrightarrow>
            obj_get ob' k =
              (if obj_get ob k \<noteq> JUndef then obj_get ob k
               else (case v of ThisSite \<Rightarrow> api_site api | ThisAccount \<Rightarrow> api_account api
                     | ThisUser \<Rightarrow> api_user api | ConfigSite \<Rightarrow> obj_get ob' ''site''
                     | Literal l \<Rightarrow> l)))
       \<and> (\<forall>k. k \<noteq> ''authorization_token'' \<and> (\<forall>v. IfFalsy k v \<notin> set ds \<and> IfUndefined k v \<notin> set ds)
            \<longrightarrow> obj_get ob' k = obj_get ob k)"
  note sh = endpoints_defaults[OF assms(1)]
  have z: "?P []" if "defaults ep = []"
    using o unfolding that by (intro defaults_none) simp
  have a: "?P [d]" if "defaults ep = [d]" "dflt_val d \<noteq> ConfigSite" "dflt_key d \<noteq> ''authorization_token''" for d
    using o that(2,3) unfolding that(1) by (intro defaults_one) simp_all
  have b: "?P [d1, d2]" if "defaults ep = [d1, d2]" "dflt_val d1 \<noteq> ConfigSite"
     "dflt_val d2 = ConfigSite \<longrightarrow> dflt_key d2 \<noteq> ''site''" "dflt_key d1 \<noteq> dflt_key d2"
     "dflt_key d1 \<noteq> ''authorization_token''" "dflt_key d2 \<noteq> ''authorization_token''" for d1 d2
    using o that(2-) unfolding that(1) by (intro defaults_two) simp_all
  from sh consider "defaults ep = []"
    | d where "defaults ep = [d]" "dflt_val d \<noteq> ConfigSite" "dflt_key d \<noteq> ''authorization_token''"
    | d1 d2 where "defaults ep = [d1, d2]" "dflt_val d1 \<noteq> ConfigSite"
     "dflt_val d2 = ConfigSite \<longrightarrow> dflt_key d2 \<noteq> ''site''" "dflt_key d1 \<noteq> dflt_key d2"
     "dflt_key d1 \<noteq> ''authorization_token''" "dflt_key d2 \<noteq> ''authorization_token''"
    by (elim insertE emptyE) simp_all
  then show ?thesis
  proof cases
    case 1
    from z[OF 1] show ?thesis unfolding 1 .
  next
    case 2
    from a[OF 2] show ?thesis unfolding 2(1) .
  next
    case 3
    from b[OF 3] show ?thesis unfolding 3(1) .
  qed
qed
text \<open>
  Claim C4.  \<^verbatim>\<open>call\<close> sends a further request only after a failure whose reported code is
  a string containing a retriable token, and \<^verbatim>\<open>TIMEOUT\<close> is the only token.  Hence a call
  whose first request fails with another code (or with no JSON body) sends exactly one
  request and rejects with that failure, and a call that meets a retriable failure on every
  attempt sends exactly \<open>retries + 1\<close> requests and rejects with the last failure.
\<close>

theorem call_retry_policy:
  "(let r = cs_result (call gadget h config ajax rnd); retries = nullish (cc_retries config) 3 in
      (\<forall>i. Suc i < length (requests r) \<longrightarrow> retriable_failure (ajax i) \<and> int i < retries)
    \<and> (\<not> retriable_failure (ajax 0) \<longrightarrow> length (requests r) = 1
         \<and> (\<forall>x s er. ajax 0 = Fail x s er \<longrightarrow> outcome r = Rejected x s er))
    \<and> (0 \<le> retries \<and> (\<forall>k. retriable_failure (ajax k)) \<longrightarrow>
         int (length (requests r)) = retries + 1
         \<and> (\<exists>x s er. ajax (nat retries) = Fail x s er \<and> outcome r = Rejected x s er)))
   \<and> (\<forall>a. retriable_failure a \<longleftrightarrow>
         (\<exists>x s er c p q. a = Fail x s er \<and> js_prop (responseJSON x) ''code'' = JStr c
            \<and> c = p @ ''TIMEOUT'' @ q))
   \<and> retryCodes = [''TIMEOUT'']"
proof -
  define ps where "ps = heap_obj (cs_heap (call gadget h config ajax rnd))
      (the (cc_data (cs_config (call gadget h config ajax rnd))))"
  define retries where "retries = nullish (cc_retries config) 3"
  define delay where "delay = nullish (cc_delay config) 1000"
  define r where "r = ring gadget (cc_method config) (cc_endpoint config) ps ajax rnd retries delay 0"
  have r: "cs_result (call gadget h config ajax rnd) = r"
    unfolding r_def ps_def retries_def delay_def by (rule call_result)
  have 1: "\<forall>i. Suc i < length (requests r) \<longrightarrow> retriable_failure (ajax i) \<and> int i < retries"
    unfolding r_def using ring_retries_only_retriable[where count=0] by auto
  have 2: "\<not> retriable_failure (ajax 0) \<longrightarrow> length (requests r) = 1
         \<and> (\<forall>x s er. ajax 0 = Fail x s er \<longrightarrow> outcome r = Rejected x s er)"
  proof
    assume "\<not> retriable_failure (ajax 0)"
    then have n: "\<not> (retriable_failure (ajax 0) \<and> int 0 < retries)" by simp
    from ring_stop[where a="ajax 0" and ajax=ajax and count=0, OF n refl]
    show "length (requests r) = 1 \<and> (\<forall>x s er. ajax 0 = Fail x s er \<longrightarrow> outcome r = Rejected x s er)"
      unfolding r_def by (cases "ajax 0") simp_all
  qed
  have 3: "0 \<le> retries \<and> (\<forall>k. retriable_failure (ajax k)) \<longrightarrow>
         int (length (requests r)) = retries + 1
         \<and> (\<exists>x s er. ajax (nat retries) = Fail x s er \<and> outcome r = Rejected x s er)"
  proof
    assume a: "0 \<le> retries \<and> (\<forall>k. retriable_failure (ajax k))"
    then have le: "int 0 \<le> retries" and all: "\<forall>k. retriable_failure (ajax k)" by simp_all
    have l: "int (length (requests r)) = retries + 1"
      unfolding r_def using ring_all_retriable[OF all le] by simp
    have o: "outcome r = (case ajax (nat retries) of Done v \<Rightarrow> Resolved v | Fail x s er \<Rightarrow> Rejected x s er)"
      unfolding r_def using ring_all_retriable_outcome[OF all le] by simp
    from all have "retriable_failure (ajax (nat retries))" by blast
    then obtain x s er where "ajax (nat retries) = Fail x s er" by (rule retriable_failureE)
    with o l show "int (length (requests r)) = retries + 1
         \<and> (\<exists>x s er. ajax (nat retries) = Fail x s er \<and> outcome r = Rejected x s er)" by simp
  qed
  have 4: "\<forall>a. retriable_failure a \<longleftrightarrow>
         (\<exists>x s er c p q. a = Fail x s er \<and> js_prop (responseJSON x) ''code'' = JStr c
            \<and> c = p @ ''TIMEOUT'' @ q)"
    by (intro allI retriable_failure_iff)
  have 5: "retryCodes = [''TIMEOUT'']" by (simp add: retryCodes_def)
  show ?thesis
    unfolding Let_def r retries_def[symmetric] by (intro conjI 1 2 3 4 5)
qed


theorem call_retry_policy_witness:
  "(\<forall>k. retriable_failure ((\<lambda>k. Fail \<lparr> responseJSON = JObj [(''code'', JStr ''GATEWAY_TIMEOUT'')],
                                          http_status = 504 \<rparr> ''error'' ''Gateway Timeout'') k))
   \<and> length (requests (cs_result (call [] \<lparr> objs = Map.empty, next_addr = 0 \<rparr>
         \<lparr> cc_method = ''GET'', cc_endpoint = ''/sites/list'', cc_data = None,
           cc_retries = Some 2, cc_delay = None \<rparr>
         (\<lambda>k. Fail \<lparr> responseJSON = JObj [(''code'', JStr ''GATEWAY_TIMEOUT'')],
                      http_status = 504 \<rparr> ''error'' ''Gateway Timeout'')
         (\<lambda>k. 0)))) = 3"
proof -
  let ?ajax = "\<lambda>k::nat. Fail \<lparr> responseJSON = JObj [(''code'', JStr ''GATEWAY_TIMEOUT'')],
                      http_status = 504 \<rparr> ''error'' ''Gateway Timeout''"
  let ?config = "\<lparr> cc_method = ''GET'', cc_endpoint = ''/sites/list'', cc_data = None,
           cc_retries = Some (2::int), cc_delay = None \<rparr>"
  let ?r = "cs_result (call [] \<lparr> objs = Map.empty, next_addr = 0 \<rparr> ?config ?ajax (\<lambda>k. 0))"
  have h: "\<forall>k. retriable_failure (?ajax k)"
    by (simp add: retriable_failure_def retriable_code_def retryCodes_def obj_get_def)
  have n: "nullish (cc_retries ?config) 3 = 2" by (simp add: nullish_def)
  from call_retry_policy[of "[]" "\<lparr> objs = Map.empty, next_addr = 0 \<rparr>" ?config ?ajax "\<lambda>k. 0"]
  have "0 \<le> nullish (cc_retries ?config) 3 \<and> (\<forall>k. retriable_failure (?ajax k)) \<longrightarrow>
         int (length (requests ?r)) = nullish (cc_retries ?config) 3 + 1"
    unfolding Let_def by blast
  with h n have "int (length (requests ?r)) = 3" by simp
  with h show ?thesis by simp
qed


text \<open>
  Claim C6.  When an attempt of \<^verbatim>\<open>call\<close> fails with the code \<^verbatim>\<open>SESSION_NOT_FOUND\<close>, whatever
  the retry budget, the page body is replaced by the reconnect instruction, no further
  request is sent, and the promise rejects with the transport object, status and error of
  that failure.
\<close>

theorem session_not_found_fallback:
  assumes "ajax i = Fail x s er"
    and "js_prop (responseJSON x) ''code'' = JStr ''SESSION_NOT_FOUND''"
    and "i < length (requests (cs_result (call gadget h config ajax rnd)))"
  shows "body (cs_result (call gadget h config ajax rnd)) = Some reconnect_html
       \<and> outcome (cs_result (call gadget h config ajax rnd)) = Rejected x s er
       \<and> length (requests (cs_result (call gadget h config ajax rnd))) = Suc i"
  using assms unfolding call_result using ring_session_not_found[where count=0] by simp

theorem session_not_found_fallback_witness:
  "js_prop (responseJSON \<lparr> responseJSON = JObj [(''code'', JStr ''SESSION_NOT_FOUND'')], http_status = 401 \<rparr>)
       ''code'' = JStr ''SESSION_NOT_FOUND''
   \<and> body (cs_result (call [] \<lparr> objs = Map.empty, next_addr = 0 \<rparr>
         \<lparr> cc_method = ''GET'', cc_endpoint = ''/sites/list'', cc_data = None,
           cc_retries = Some 5, cc_delay = None \<rparr>
         (\<lambda>k. Fail \<lparr> responseJSON = JObj [(''code'', JStr ''SESSION_NOT_FOUND'')], http_status = 401 \<rparr>
                ''error'' ''Unauthorized'')
         (\<lambda>k. 0))) = Some reconnect_html
   \<and> outcome (cs_result (call [] \<lparr> objs = Map.empty, next_addr = 0 \<rparr>
         \<lparr> cc_method = ''GET'', cc_endpoint = ''/sites/list'', cc_data = None,
           cc_retries = Some 5, cc_delay = None \<rparr>
         (\<lambda>k. Fail \<lparr> responseJSON = JObj [(''code'', JStr ''SESSION_NOT_FOUND'')], http_status = 401 \<rparr>
                ''error'' ''Unauthorized'')
         (\<lambda>k. 0))) =
       Rejected \<lparr> responseJSON = JObj [(''code'', JStr ''SESSION_NOT_FOUND'')], http_status = 401 \<rparr>
                ''error'' ''Unauthorized''"
proof -
  have c: "js_prop (responseJSON \<lparr> responseJSON = JObj [(''code'', JStr ''SESSION_NOT_FOUND'')], http_status = 401 \<rparr>)
       ''code'' = JStr ''SESSION_NOT_FOUND''" by (simp add: obj_get_def)
  from session_not_found_fallback[where i=0 and ajax="\<lambda>k. Fail \<lparr> responseJSON = JObj [(''code'', JStr ''SESSION_NOT_FOUND'')], http_status = 401 \<rparr>
                ''error'' ''Unauthorized''", OF refl c call_requests_length]
  show ?thesis using c by simp
qed
text \<open>
  Claim C7.  The constructor stores \<^verbatim>\<open>gadget.apihost || 'https://a.cms.omniupdate.com'\<close> in
  \<^verbatim>\<open>this.apihost\<close>, but \<^verbatim>\<open>call\<close> builds the URL from \<^verbatim>\<open>gadget.apihost\<close> itself.  With an
  environment that has no \<^verbatim>\<open>apihost\<close> the client's host is the default one, and the request
  goes to \<^verbatim>\<open>undefined/sites/list\<close>.
\<close>

theorem call_url_ignores_default_host:
  "api_apihost (constructor [(''token'', JStr ''abc'')]) = JStr ''https://a.cms.omniupdate.com''
   \<and> map rq_url (requests (cs_result (call [(''token'', JStr ''abc'')] \<lparr> objs = Map.empty, next_addr = 0 \<rparr>
         \<lparr> cc_method = ''GET'', cc_endpoint = ''/sites/list'', cc_data = None,
           cc_retries = None, cc_delay = None \<rparr>
         (\<lambda>k. Done JNull) (\<lambda>k. 0)))) = [''undefined/sites/list'']"
  by (simp add: constructor_def js_or_def obj_get_def call_result ring_Done make_request_def)
text \<open>
  Claim C10.  \<^verbatim>\<open>call\<close> writes the current token into the caller's parameter object as
  \<^verbatim>\<open>authorization_token\<close>, and every endpoint method of the table, run on a caller's object,
  leaves that object changed: it contains the token afterwards and differs from what it was
  unless it already held that token; every property for which the method has a default
  (\<^verbatim>\<open>site\<close>, \<^verbatim>\<open>account\<close>, \<^verbatim>\<open>user\<close>, \<^verbatim>\<open>target\<close>, \<^verbatim>\<open>type\<close>, \<^verbatim>\<open>message\<close>, \<^verbatim>\<open>count\<close> and the
  flags) keeps the caller's value if that was truthy (for a flag: not undefined) and holds the
  default otherwise, where the default is the client's site, account or user, the object's own
  \<^verbatim>\<open>site\<close>, or the literal of the source; every other property is as the caller left it.
\<close>

theorem caller_config_is_mutated:
  assumes "objs h a = Some ob"
  shows "(cc_data config = Some a \<longrightarrow>
            heap_obj (cs_heap (call gadget h config ajax rnd)) a =
              obj_set ob ''authorization_token'' (obj_get gadget ''token''))
       \<and> (\<forall>name ep. map_of endpoints name = Some ep \<longrightarrow>
           (let ob' = heap_obj (cs_heap (endpoint_method api gadget h ep (Some a) marg rarg ajax rnd)) a in
              obj_get ob' ''authorization_token'' = obj_get gadget ''token''
            \<and> (obj_get ob ''authorization_token'' \<noteq> obj_get gadget ''token'' \<longrightarrow> ob' \<noteq> ob)
            \<and> (\<forall>k v. IfFalsy k v \<in> set (defaults ep) \<longrightarrow>
            obj_get ob' k =
              (if truthy (obj_get ob k) then obj_get ob k
               else (case v of ThisSite \<Rightarrow> api_site api | ThisAccount \<Rightarrow> api_account api
                     | ThisUser \<Rightarrow> api_user api | ConfigSite \<Rightarrow> obj_get ob' ''site''
                     | Literal l \<Rightarrow> l)))
       \<and> (\<forall>k v. IfUndefined k v \<in> set (defaults ep) \<longrightarrow>
            obj_get ob' k =
              (if obj_get ob k \<noteq> JUndef then obj_get ob k
               else (case v of ThisSite \<Rightarrow> api_site api | ThisAccount \<Rightarrow> api_account api
                     | ThisUser \<Rightarrow> api_user api | ConfigSite \<Rightarrow> obj_get ob' ''site''
                     | Literal l \<Rightarrow> l)))
       \<and> (\<forall>k. k \<noteq> ''authorization_token'' \<and> (\<forall>v. IfFalsy k v \<notin> set (defaults ep) \<and> IfUndefined k v \<notin> set (defaults ep))
            \<longrightarrow> obj_get ob' k = obj_get ob k)))"
proof (intro conjI allI impI)
  assume "cc_data config = Some a"
  then show "heap_obj (cs_heap (call gadget h config ajax rnd)) a =
              obj_set ob ''authorization_token'' (obj_get gadget ''token'')"
    using assms by (rule call_heap_data)
next
  fix name ep
  assume e: "map_of endpoints name = Some ep"
  define ob' where "ob' = heap_obj (cs_heap (endpoint_method api gadget h ep (Some a) marg rarg ajax rnd)) a"
  have o: "ob' = obj_set (fold (apply_dflt api) (defaults ep) ob) ''authorization_token''
                (obj_get gadget ''token'')"
    unfolding ob'_def using assms by (rule endpoint_method_heap)
  have 1: "obj_get ob' ''authorization_token'' = obj_get gadget ''token''"
    unfolding o by (simp add: obj_get_set)
  then have 2: "obj_get ob ''authorization_token'' \<noteq> obj_get gadget ''token'' \<longrightarrow> ob' \<noteq> ob"
    by auto
  note 3 = defaults_applied[OF e o]
  show "(let ob' = heap_obj (cs_heap (endpoint_method api gadget h ep (Some a) marg rarg ajax rnd)) a in
              obj_get ob' ''authorization_token'' = obj_get gadget ''token''
            \<and> (obj_get ob ''authorization_token'' \<noteq> obj_get gadget ''token'' \<longrightarrow> ob' \<noteq> ob)
            \<and> (\<forall>k v. IfFalsy k v \<in> set (defaults ep) \<longrightarrow>
            obj_get ob' k =
              (if truthy (obj_get ob k) then obj_get ob k
               else (case v of ThisSite \<Rightarrow> api_site api | ThisAccount \<Rightarrow> api_account api
                     | ThisUser \<Rightarrow> api_user api | ConfigSite \<Rightarrow> obj_get ob' ''site''
                     | Literal l \<Rightarrow> l)))
       \<and> (\<forall>k v. IfUndefined k v \<in> set (defaults ep) \<longrightarrow>
            obj_get ob' k =
              (if obj_get ob k \<noteq> JUndef then obj_get ob k
               else (case v of ThisSite \<Rightarrow> api_site api | ThisAccount \<Rightarrow> api_account api
                     | ThisUser \<Rightarrow> api_user api | ConfigSite \<Rightarrow> obj_get ob' ''site''
                     | Literal l \<Rightarrow> l)))
       \<and> (\<forall>k. k \<noteq> ''authorization_token'' \<and> (\<forall>v. IfFalsy k v \<notin> set (defaults ep) \<and> IfUndefined k v \<notin> set (defaults ep))
            \<longrightarrow> obj_get ob' k = obj_get ob k))"
    unfolding Let_def ob'_def[symmetric] using 1 2 3 by (intro conjI) blast+
qed

theorem caller_config_is_mutated_witness:
  "objs \<lparr> objs = [0 \<mapsto> [(''path'', JStr ''/about'')]], next_addr = 1 \<rparr> 0 = Some [(''path'', JStr ''/about'')]
   \<and> obj_get [(''path'', JStr ''/about'')] ''authorization_token'' \<noteq> obj_get [(''site'', JStr ''www''), (''token'', JStr ''abc''), (''account'', JStr ''acme''), (''user'', JStr ''jo'')] ''token''
   \<and> map_of endpoints ''files_multipublish'' =
        Some \<lparr> defaults = [IfFalsy ''site'' ThisSite, IfFalsy ''target'' ConfigSite], path = Path ''/files/multipublish'', send = ViaCall \<rparr>
   \<and> heap_obj (cs_heap (endpoint_method (constructor [(''site'', JStr ''www''), (''token'', JStr ''abc''), (''account'', JStr ''acme''), (''user'', JStr ''jo'')]) [(''site'', JStr ''www''), (''token'', JStr ''abc''), (''account'', JStr ''acme''), (''user'', JStr ''jo'')] \<lparr> objs = [0 \<mapsto> [(''path'', JStr ''/about'')]], next_addr = 1 \<rparr>
          \<lparr> defaults = [IfFalsy ''site'' ThisSite, IfFalsy ''target'' ConfigSite], path = Path ''/files/multipublish'', send = ViaCall \<rparr>
          (Some 0) None None (\<lambda>k. Done JNull) (\<lambda>k. 0))) 0 =
        [(''path'', JStr ''/about''), (''site'', JStr ''www''), (''target'', JStr ''www''), (''authorization_token'', JStr ''abc'')]
   \<and> map_of endpoints ''components_list'' =
        Some \<lparr> defaults = [IfFalsy ''type'' (Literal (JStr ''generic'')), IfUndefined ''disabled'' (Literal (JBool False))], path = Path ''/rs/components'', send = ViaGet \<rparr>
   \<and> heap_obj (cs_heap (endpoint_method (constructor [(''site'', JStr ''www''), (''token'', JStr ''abc''), (''account'', JStr ''acme''), (''user'', JStr ''jo'')]) [(''site'', JStr ''www''), (''token'', JStr ''abc''), (''account'', JStr ''acme''), (''user'', JStr ''jo'')] \<lparr> objs = [0 \<mapsto> [(''path'', JStr ''/about'')]], next_addr = 1 \<rparr>
          \<lparr> defaults = [IfFalsy ''type'' (Literal (JStr ''generic'')), IfUndefined ''disabled'' (Literal (JBool False))], path = Path ''/rs/components'', send = ViaGet \<rparr>
          (Some 0) None None (\<lambda>k. Done JNull) (\<lambda>k. 0))) 0 =
        [(''path'', JStr ''/about''), (''type'', JStr ''generic''), (''disabled'', JBool False), (''authorization_token'', JStr ''abc'')]
   \<and> map_of endpoints ''sites_view'' =
        Some \<lparr> defaults = [IfFalsy ''account'' ThisAccount, IfFalsy ''site'' ThisSite], path = Path ''/sites/view'', send = ViaGet \<rparr>
   \<and> heap_obj (cs_heap (endpoint_method (constructor [(''site'', JStr ''www''), (''token'', JStr ''abc''), (''account'', JStr ''acme''), (''user'', JStr ''jo'')]) [(''site'', JStr ''www''), (''token'', JStr ''abc''), (''account'', JStr ''acme''), (''user'', JStr ''jo'')] \<lparr> objs = [0 \<mapsto> [(''path'', JStr ''/about'')]], next_addr = 1 \<rparr>
          \<lparr> defaults = [IfFalsy ''account'' ThisAccount, IfFalsy ''site'' ThisSite], path = Path ''/sites/view'', send = ViaGet \<rparr>
          (Some 0) None None (\<lambda>k. Done JNull) (\<lambda>k. 0))) 0 =
        [(''path'', JStr ''/about''), (''account'', JStr ''acme''), (''site'', JStr ''www''), (''authorization_token'', JStr ''abc'')]
   \<and> map_of endpoints ''users_view'' =
        Some \<lparr> defaults = [IfFalsy ''user'' ThisUser], path = Path ''/users/view'', send = ViaGet \<rparr>
   \<and> heap_obj (cs_heap (endpoint_method (constructor [(''site'', JStr ''www''), (''token'', JStr ''abc''), (''account'', JStr ''acme''), (''user'', JStr ''jo'')]) [(''site'', JStr ''www''), (''token'', JStr ''abc''), (''account'', JStr ''acme''), (''user'', JStr ''jo'')] \<lparr> objs = [0 \<mapsto> [(''path'', JStr ''/about'')]], next_addr = 1 \<rparr>
          \<lparr> defaults = [IfFalsy ''user'' ThisUser], path = Path ''/users/view'', send = ViaGet \<rparr>
          (Some 0) None None (\<lambda>k. Done JNull) (\<lambda>k. 0))) 0 =
        [(''path'', JStr ''/about''), (''user'', JStr ''jo''), (''authorization_token'', JStr ''abc'')]
   \<and> map_of endpoints ''sites_quicksearch'' =
        Some \<lparr> defaults = [IfFalsy ''site'' ThisSite, IfFalsy ''count'' (Literal (JNum (Fin 1000)))], path = Path ''/sites/quicksearch'', send = ViaGet \<rparr>
   \<and> heap_obj (cs_heap (endpoint_method (constructor [(''site'', JStr ''www''), (''token'', JStr ''abc''), (''account'', JStr ''acme''), (''user'', JStr ''jo'')]) [(''site'', JStr ''www''), (''token'', JStr ''abc''), (''account'', JStr ''acme''), (''user'', JStr ''jo'')] \<lparr> objs = [0 \<mapsto> [(''path'', JStr ''/about'')]], next_addr = 1 \<rparr>
          \<lparr> defaults = [IfFalsy ''site'' ThisSite, IfFalsy ''count'' (Literal (JNum (Fin 1000)))], path = Path ''/sites/quicksearch'', send = ViaGet \<rparr>
          (Some 0) None None (\<lambda>k. Done JNull) (\<lambda>k. 0))) 0 =
        [(''path'', JStr ''/about''), (''site'', JStr ''www''), (''count'', JNum (Fin 1000)), (''authorization_token'', JStr ''abc'')]
   \<and> map_of endpoints ''files_backup'' =
        Some \<lparr> defaults = [IfFalsy ''site'' ThisSite, IfFalsy ''message'' (Literal (JStr ''Backup via CMS API''))], path = Path ''/files/backup'', send = ViaPost \<rparr>
   \<and> heap_obj (cs_heap (endpoint_method (constructor [(''site'', JStr ''www''), (''token'', JStr ''abc''), (''account'', JStr ''acme''), (''user'', JStr ''jo'')]) [(''site'', JStr ''www''), (''token'', JStr ''abc''), (''account'', JStr ''acme''), (''user'', JStr ''jo'')] \<lparr> objs = [0 \<mapsto> [(''path'', JStr ''/about'')]], next_addr = 1 \<rparr>
          \<lparr> defaults = [IfFalsy ''site'' ThisSite, IfFalsy ''message'' (Literal (JStr ''Backup via CMS API''))], path = Path ''/files/backup'', send = ViaPost \<rparr>
          (Some 0) None None (\<lambda>k. Done JNull) (\<lambda>k. 0))) 0 =
        [(''path'', JStr ''/about''), (''site'', JStr ''www''), (''message'', JStr ''Backup via CMS API''), (''authorization_token'', JStr ''abc'')]
   \<and> map_of endpoints ''files_checkedout'' =
        Some \<lparr> defaults = [IfUndefined ''all'' (Literal (JBool True)), IfFalsy ''site'' ThisSite], path = Path ''/files/checkedout'', send = ViaGet \<rparr>
   \<and> heap_obj (cs_heap (endpoint_method (constructor [(''site'', JStr ''www''), (''token'', JStr ''abc''), (''account'', JStr ''acme''), (''user'', JStr ''jo'')]) [(''site'', JStr ''www''), (''token'', JStr ''abc''), (''account'', JStr ''acme''), (''user'', JStr ''jo'')] \<lparr> objs = [0 \<mapsto> [(''path'', JStr ''/about'')]], next_addr = 1 \<rparr>
          \<lparr> defaults = [IfUndefined ''all'' (Literal (JBool True)), IfFalsy ''site'' ThisSite], path = Path ''/files/checkedout'', send = ViaGet \<rparr>
          (Some 0) None None (\<lambda>k. Done JNull) (\<lambda>k. 0))) 0 =
        [(''path'', JStr ''/about''), (''all'', JBool True), (''site'', JStr ''www''), (''authorization_token'', JStr ''abc'')]
   \<and> IfFalsy ''target'' ConfigSite \<in> set (defaults \<lparr> defaults = [IfFalsy ''site'' ThisSite, IfFalsy ''target'' ConfigSite], path = Path ''/files/multipublish'', send = ViaCall \<rparr>)
   \<and> obj_get (heap_obj (cs_heap (endpoint_method (constructor [(''site'', JStr ''www''), (''token'', JStr ''abc''), (''account'', JStr ''acme''), (''user'', JStr ''jo'')]) [(''site'', JStr ''www''), (''token'', JStr ''abc''), (''account'', JStr ''acme''), (''user'', JStr ''jo'')] \<lparr> objs = [0 \<mapsto> [(''path'', JStr ''/about'')]], next_addr = 1 \<rparr>
          \<lparr> defaults = [IfFalsy ''site'' ThisSite, IfFalsy ''target'' ConfigSite], path = Path ''/files/multipublish'', send = ViaCall \<rparr>
          (Some 0) None None (\<lambda>k. Done JNull) (\<lambda>k. 0))) 0) ''target'' =
        obj_get (heap_obj (cs_heap (endpoint_method (constructor [(''site'', JStr ''www''), (''token'', JStr ''abc''), (''account'', JStr ''acme''), (''user'', JStr ''jo'')]) [(''site'', JStr ''www''), (''token'', JStr ''abc''), (''account'', JStr ''acme''), (''user'', JStr ''jo'')] \<lparr> objs = [0 \<mapsto> [(''path'', JStr ''/about'')]], next_addr = 1 \<rparr>
          \<lparr> defaults = [IfFalsy ''site'' ThisSite, IfFalsy ''target'' ConfigSite], path = Path ''/files/multipublish'', send = ViaCall \<rparr>
          (Some 0) None None (\<lambda>k. Done JNull) (\<lambda>k. 0))) 0) ''site''
   \<and> IfUndefined ''disabled'' (Literal (JBool False)) \<in> set (defaults \<lparr> defaults = [IfFalsy ''type'' (Literal (JStr ''generic'')), IfUndefined ''disabled'' (Literal (JBool False))], path = Path ''/rs/components'', send = ViaGet \<rparr>)
   \<and> obj_get (heap_obj (cs_heap (endpoint_method (constructor [(''site'', JStr ''www''), (''token'', JStr ''abc''), (''account'', JStr ''acme''), (''user'', JStr ''jo'')]) [(''site'', JStr ''www''), (''token'', JStr ''abc''), (''account'', JStr ''acme''), (''user'', JStr ''jo'')] \<lparr> objs = [0 \<mapsto> [(''path'', JStr ''/about'')]], next_addr = 1 \<rparr>
          \<lparr> defaults = [IfFalsy ''type'' (Literal (JStr ''generic'')), IfUndefined ''disabled'' (Literal (JBool False))], path = Path ''/rs/components'', send = ViaGet \<rparr>
          (Some 0) None None (\<lambda>k. Done JNull) (\<lambda>k. 0))) 0) ''disabled'' = JBool False
   \<and> (''path'' \<noteq> ''authorization_token'' \<and> (\<forall>v. IfFalsy ''path'' v \<notin> set (defaults \<lparr> defaults = [IfFalsy ''site'' ThisSite, IfFalsy ''target'' ConfigSite], path = Path ''/files/multipublish'', send = ViaCall \<rparr>)
        \<and> IfUndefined ''path'' v \<notin> set (defaults \<lparr> defaults = [IfFalsy ''site'' ThisSite, IfFalsy ''target'' ConfigSite], path = Path ''/files/multipublish'', send = ViaCall \<rparr>)))
   \<and> obj_get (heap_obj (cs_heap (endpoint_method (constructor [(''site'', JStr ''www''), (''token'', JStr ''abc''), (''account'', JStr ''acme''), (''user'', JStr ''jo'')]) [(''site'', JStr ''www''), (''token'', JStr ''abc''), (''account'', JStr ''acme''), (''user'', JStr ''jo'')] \<lparr> objs = [0 \<mapsto> [(''path'', JStr ''/about'')]], next_addr = 1 \<rparr>
          \<lparr> defaults = [IfFalsy ''site'' ThisSite, IfFalsy ''target'' ConfigSite], path = Path ''/files/multipublish'', send = ViaCall \<rparr>
          (Some 0) None None (\<lambda>k. Done JNull) (\<lambda>k. 0))) 0) ''path'' = JStr ''/about''
   \<and> heap_obj (cs_heap (endpoint_method (constructor [(''site'', JStr ''www''), (''token'', JStr ''abc''), (''account'', JStr ''acme''), (''user'', JStr ''jo'')]) [(''site'', JStr ''www''), (''token'', JStr ''abc''), (''account'', JStr ''acme''), (''user'', JStr ''jo'')] \<lparr> objs = [0 \<mapsto> [(''path'', JStr ''/about'')]], next_addr = 1 \<rparr>
          \<lparr> defaults = [IfFalsy ''site'' ThisSite, IfFalsy ''target'' ConfigSite], path = Path ''/files/multipublish'', send = ViaCall \<rparr>
          (Some 0) None None (\<lambda>k. Done JNull) (\<lambda>k. 0))) 0 \<noteq> [(''path'', JStr ''/about'')]"
proof -
  let ?h = "\<lparr> objs = [0 \<mapsto> [(''path'', JStr ''/about'')]], next_addr = 1 \<rparr>"
  let ?g = "[(''site'', JStr ''www''), (''token'', JStr ''abc''), (''account'', JStr ''acme''), (''user'', JStr ''jo'')]"
  let ?ob = "[(''path'', JStr ''/about'')]"
  have o: "objs ?h 0 = Some ?ob" by simp
  have t: "obj_get ?ob ''authorization_token'' \<noteq> obj_get ?g ''token''" by (simp add: obj_get_def)
  have c: "api_site (constructor ?g) = JStr ''www''" "api_account (constructor ?g) = JStr ''acme''"
    "api_user (constructor ?g) = JStr ''jo''"
    by (simp_all add: constructor_def obj_get_def js_or_def Let_def)
  note th = caller_config_is_mutated[OF o, where gadget="?g" and api="constructor ?g" and marg=None
      and rarg=None and ajax="\<lambda>k. Done JNull" and rnd="\<lambda>k. 0", THEN conjunct2, rule_format, unfolded Let_def]
  let ?e0 = "\<lparr> defaults = [IfFalsy ''site'' ThisSite, IfFalsy ''target'' ConfigSite], path = Path ''/files/multipublish'', send = ViaCall \<rparr>"
  have e0: "map_of endpoints ''files_multipublish'' = Some ?e0" by (simp add: endpoints_def)
  have r0: "heap_obj (cs_heap (endpoint_method (constructor ?g) ?g ?h ?e0 (Some 0) None None (\<lambda>k. Done JNull) (\<lambda>k. 0))) 0 = [(''path'', JStr ''/about''), (''site'', JStr ''www''), (''target'', JStr ''www''), (''authorization_token'', JStr ''abc'')]"
    unfolding endpoint_method_heap[OF o] by (simp add: c obj_set_def obj_get_def)
  have d0: "heap_obj (cs_heap (endpoint_method (constructor ?g) ?g ?h ?e0 (Some 0) None None (\<lambda>k. Done JNull) (\<lambda>k. 0))) 0 \<noteq> ?ob"
    using th[OF e0] t by blast
  let ?e1 = "\<lparr> defaults = [IfFalsy ''type'' (Literal (JStr ''generic'')), IfUndefined ''disabled'' (Literal (JBool False))], path = Path ''/rs/components'', send = ViaGet \<rparr>"
  have e1: "map_of endpoints ''components_list'' = Some ?e1" by (simp add: endpoints_def)
  have r1: "heap_obj (cs_heap (endpoint_method (constructor ?g) ?g ?h ?e1 (Some 0) None None (\<lambda>k. Done JNull) (\<lambda>k. 0))) 0 = [(''path'', JStr ''/about''), (''type'', JStr ''generic''), (''disabled'', JBool False), (''authorization_token'', JStr ''abc'')]"
    unfolding endpoint_method_heap[OF o] by (simp add: c obj_set_def obj_get_def)
  let ?e2 = "\<lparr> defaults = [IfFalsy ''account'' ThisAccount, IfFalsy ''site'' ThisSite], path = Path ''/sites/view'', send = ViaGet \<rparr>"
  have e2: "map_of endpoints ''sites_view'' = Some ?e2" by (simp add: endpoints_def)
  have r2: "heap_obj (cs_heap (endpoint_method (constructor ?g) ?g ?h ?e2 (Some 0) None None (\<lambda>k. Done JNull) (\<lambda>k. 0))) 0 = [(''path'', JStr ''/about''), (''account'', JStr ''acme''), (''site'', JStr ''www''), (''authorization_token'', JStr ''abc'')]"
    unfolding endpoint_method_heap[OF o] by (simp add: c obj_set_def obj_get_def)
  let ?e3 = "\<lparr> defaults = [IfFalsy ''user'' ThisUser], path = Path ''/users/view'', send = ViaGet \<rparr>"
  have e3: "map_of endpoints ''users_view'' = Some ?e3" by (simp add: endpoints_def)
  have r3: "heap_obj (cs_heap (endpoint_method (constructor ?g) ?g ?h ?e3 (Some 0) None None (\<lambda>k. Done JNull) (\<lambda>k. 0))) 0 = [(''path'', JStr ''/about''), (''user'', JStr ''jo''), (''authorization_token'', JStr ''abc'')]"
    unfolding endpoint_method_heap[OF o] by (simp add: c obj_set_def obj_get_def)
  let ?e4 = "\<lparr> defaults = [IfFalsy ''site'' ThisSite, IfFalsy ''count'' (Literal (JNum (Fin 1000)))], path = Path ''/sites/quicksearch'', send = ViaGet \<rparr>"
  have e4: "map_of endpoints ''sites_quicksearch'' = Some ?e4" by (simp add: endpoints_def)
  have r4: "heap_obj (cs_heap (endpoint_method (constructor ?g) ?g ?h ?e4 (Some 0) None None (\<lambda>k. Done JNull) (\<lambda>k. 0))) 0 = [(''path'', JStr ''/about''), (''site'', JStr ''www''), (''count'', JNum (Fin 1000)), (''authorization_token'', JStr ''abc'')]"
    unfolding endpoint_method_heap[OF o] by (simp add: c obj_set_def obj_get_def)
  let ?e5 = "\<lparr> defaults = [IfFalsy ''site'' ThisSite, IfFalsy ''message'' (Literal (JStr ''Backup via CMS API''))], path = Path ''/files/backup'', send = ViaPost \<rparr>"
  have e5: "map_of endpoints ''files_backup'' = Some ?e5" by (simp add: endpoints_def)
  have r5: "heap_obj (cs_heap (endpoint_method (constructor ?g) ?g ?h ?e5 (Some 0) None None (\<lambda>k. Done JNull) (\<lambda>k. 0))) 0 = [(''path'', JStr ''/about''), (''site'', JStr ''www''), (''message'', JStr ''Backup via CMS API''), (''authorization_token'', JStr ''abc'')]"
    unfolding endpoint_method_heap[OF o] by (simp add: c obj_set_def obj_get_def)
  let ?e6 = "\<lparr> defaults = [IfUndefined ''all'' (Literal (JBool True)), IfFalsy ''site'' ThisSite], path = Path ''/files/checkedout'', send = ViaGet \<rparr>"
  have e6: "map_of endpoints ''files_checkedout'' = Some ?e6" by (simp add: endpoints_def)
  have r6: "heap_obj (cs_heap (endpoint_method (constructor ?g) ?g ?h ?e6 (Some 0) None None (\<lambda>k. Done JNull) (\<lambda>k. 0))) 0 = [(''path'', JStr ''/about''), (''all'', JBool True), (''site'', JStr ''www''), (''authorization_token'', JStr ''abc'')]"
    unfolding endpoint_method_heap[OF o] by (simp add: c obj_set_def obj_get_def)
  let ?r0 = "heap_obj (cs_heap (endpoint_method (constructor ?g) ?g ?h ?e0 (Some 0) None None (\<lambda>k. Done JNull) (\<lambda>k. 0))) 0"
  let ?r1 = "heap_obj (cs_heap (endpoint_method (constructor ?g) ?g ?h ?e1 (Some 0) None None (\<lambda>k. Done JNull) (\<lambda>k. 0))) 0"
  have m0: "IfFalsy ''target'' ConfigSite \<in> set (defaults ?e0)" by simp
  have k0: "obj_get ?r0 ''target'' = obj_get ?r0 ''site''"
    using th[OF e0, THEN conjunct2, THEN conjunct2, THEN conjunct1, rule_format, OF m0]
    by (simp add: obj_get_def)
  have m1: "IfUndefined ''disabled'' (Literal (JBool False)) \<in> set (defaults ?e1)" by simp
  have k1: "obj_get ?r1 ''disabled'' = JBool False"
    using th[OF e1, THEN conjunct2, THEN conjunct2, THEN conjunct2, THEN conjunct1, rule_format, OF m1]
    by (simp add: obj_get_def)
  have m2: "''path'' \<noteq> ''authorization_token'' \<and> (\<forall>v. IfFalsy ''path'' v \<notin> set (defaults ?e0)
        \<and> IfUndefined ''path'' v \<notin> set (defaults ?e0))" by simp
  have k2: "obj_get ?r0 ''path'' = JStr ''/about''"
    using th[OF e0, THEN conjunct2, THEN conjunct2, THEN conjunct2, THEN conjunct2, rule_format, OF m2]
    by (simp add: obj_get_def)
  show ?thesis using o t e0 r0 e1 r1 e2 r2 e3 r3 e4 r4 e5 r5 e6 r6 m0 k0 m1 k1 m2[THEN conjunct1] m2[THEN conjunct2] k2 d0 by (intro conjI)
qed
section \<open>Properties of the host bridge\<close>

subsection \<open>What the callbacks leave alone\<close>

lemma trigger_fields [simp]:
  "pendingRequests (trigger n p st) = pendingRequests st"
  "timers (trigger n p st) = timers st"
  "next_timer (trigger n p st) = next_timer st"
  "next_deferred (trigger n p st) = next_deferred st"
  "settled (trigger n p st) = settled st"
  "posted (trigger n p st) = posted st"
  "env (trigger n p st) = env st"
  "init_chain (trigger n p st) = init_chain st"
  "console (trigger n p st) = console st"
  "triggered (trigger n p st) = triggered st @ [(n, p)]"
  by (simp_all add: trigger_def Let_def)

lemma run_init_chain_fields [simp]:
  "pendingRequests (run_init_chain u s st) = pendingRequests st"
  "timers (run_init_chain u s st) = timers st"
  "next_timer (run_init_chain u s st) = next_timer st"
  "next_deferred (run_init_chain u s st) = next_deferred st"
  "settled (run_init_chain u s st) = settled st"
  "posted (run_init_chain u s st) = posted st"
  "init_chain (run_init_chain u s st) = init_chain st"
  "triggered (run_init_chain u s st) = triggered st @ [(JStr ''ready'', JUndef)]"
  by (cases s; simp add: run_init_chain_def init_then_def init_fail_def collectData_then_def Let_def)+

lemma settle_fields [simp]:
  "pendingRequests (settle d s st) = pendingRequests st"
  "timers (settle d s st) = timers st"
  "next_timer (settle d s st) = next_timer st"
  "next_deferred (settle d s st) = next_deferred st"
  "settled (settle d s st) = settled st @ [(d, s)]"
  "posted (settle d s st) = posted st"
  by (simp_all add: settle_def Let_def split: option.splits prod.splits)

lemma clearPending_fields [simp]:
  "next_timer (clearPending c st) = next_timer st"
  "next_deferred (clearPending c st) = next_deferred st"
  "settled (clearPending c st) = settled st"
  "posted (clearPending c st) = posted st"
  "env (clearPending c st) = env st"
  "init_chain (clearPending c st) = init_chain st"
  "triggered (clearPending c st) = triggered st"
  "console (clearPending c st) = console st"
  "waiting (clearPending c st) = waiting st"
  "proceeded (clearPending c st) = proceeded st"
  by (simp_all add: clearPending_def Let_def split: option.splits)

lemma clearPending_pending [simp]:
  "pendingRequests (clearPending c st) = (pendingRequests st)(c := None)"
  by (auto simp: clearPending_def Let_def split: option.splits)



subsection \<open>The bookkeeping invariant\<close>

lemma settle_count_settle [simp]:
  "settle_count (settle d s st) d' = settle_count st d' + (if d' = d then 1 else 0)"
  by (simp add: settle_count_def)


lemma count_split:
  "length (filter (\<lambda>(d', s). d' = d) xs) =
     length (filter (\<lambda>(d', s). d' = d \<and> (case s of Resolve v \<Rightarrow> True | Reject e \<Rightarrow> False)) xs)
   + length (filter (\<lambda>(d', s). d' = d \<and> (case s of Resolve v \<Rightarrow> False | Reject e \<Rightarrow> True)) xs)"
proof (induction xs)
  case Nil
  then show ?case by simp
next
  case (Cons x xs)
  obtain d' s where x: "x = (d', s)" by (cases x)
  show ?case using Cons unfolding x by (cases s) simp_all
qed















lemma send_missing:
  assumes "\<not> truthy (obj_get (env st) ''msghostOrigin'')"
  shows "sendMessageToTop name payload opt msgid thrown st =
     (next_deferred st,
      settle (next_deferred st) (Reject (missing_msghost_error name))
        (st\<lparr> next_deferred := next_deferred st + 1 \<rparr>))"
  using assms by (simp add: sendMessageToTop_def new_deferred_def Let_def)

lemma send_usable:
  assumes "truthy (obj_get (env st) ''msghostOrigin'')"
  shows "sendMessageToTop name payload opt msgid thrown st =
     (next_deferred st,
      (let st3 = registered name msgid (request_timeout st opt) st in
       case thrown of
         None \<Rightarrow> st3\<lparr> posted := posted st3 @
            [(\<lparr> m_name = name, m_gid = obj_get (env st) ''gid'',
                        m_origin = obj_get (env st) ''url'', m_token = obj_get (env st) ''token'',
                        m_place = obj_get (env st) ''place'', m_payload = payload,
                        m_callback = msgid \<rparr>, obj_get (env st) ''msghostOrigin'')] \<rparr>
       | Some e \<Rightarrow> settle (next_deferred st) (Reject e) (clearPending msgid st3)))"
  using assms
  by (cases thrown; cases "finite_positive (request_timeout st opt)")
     (simp_all add: sendMessageToTop_def new_deferred_def Let_def registered_def)

lemma registered_fields [simp]:
  "next_deferred (registered name msgid tm st) = Suc (next_deferred st)"
  "next_timer (registered name msgid tm st) = (if finite_positive tm then Suc (next_timer st) else next_timer st)"
  "settled (registered name msgid tm st) = settled st"
  "posted (registered name msgid tm st) = posted st"
  "env (registered name msgid tm st) = env st"
  "triggered (registered name msgid tm st) = triggered st"
  "console (registered name msgid tm st) = console st"
  "init_chain (registered name msgid tm st) = init_chain st"
  "waiting (registered name msgid tm st) = waiting st"
  "proceeded (registered name msgid tm st) = proceeded st"
  "pendingRequests (registered name msgid tm st) = (pendingRequests st)
           (msgid \<mapsto> \<lparr> pe_deferred = next_deferred st,
                       pe_timerId = (if finite_positive tm then Some (Suc (next_timer st)) else None),
                       pe_name = name \<rparr>)"
  "timers (registered name msgid tm st) = (if finite_positive tm
                    then (timers st)(Suc (next_timer st) \<mapsto>
                           \<lparr> t_msgid = msgid, t_deferred = next_deferred st, t_name = name,
                             t_timeoutMs = tm \<rparr>)
                    else timers st)"
  by (simp_all add: registered_def Let_def)











subsection \<open>Outstanding requests\<close>

lemma settle_count_clearPending [simp]:
  "settle_count (clearPending c st) d = settle_count st d"
  by (simp add: settle_count_def)




















subsection \<open>The example page\<close>

lemma example_urlData:
  "getUrlData example_location =
     [(''url'', JStr ''https://gadgets.example.com/apps/demo/index.html''), (''name'', JStr ''demo''),
      (''msghost'', JStr ''https://cms.example.com/11/''), (''gid'', JStr ''g1'')]"
  by (simp add: getUrlData_def example_location_def assign_def obj_set_def at_minus_2_def)

lemma example_normalize:
  "normalizeOrigin example_url_origin ''https:'' (JStr ''https://cms.example.com/11/'') =
     JStr ''https://cms.example.com''"
  by (simp add: normalizeOrigin_def trim_def is_space_def is_absolute_http_def lower_def
      example_url_origin_def origin_or_null_def Let_def)

lemma example_page_eq:
  "example_page = \<lparr> env = [(''url'', JStr ''https://gadgets.example.com/apps/demo/index.html''),
        (''name'', JStr ''demo''), (''msghost'', JStr ''https://cms.example.com/11/''),
        (''gid'', JStr ''g1''), (''msghostOrigin'', JStr ''https://cms.example.com'')],
     pendingRequests = [''id-0'' \<mapsto> \<lparr> pe_deferred = 0, pe_timerId = Some 1, pe_name = ''get-environment'' \<rparr>],
     timers = [1 \<mapsto> \<lparr> t_msgid = ''id-0'', t_deferred = 0, t_name = ''get-environment'',
                        t_timeoutMs = Fin 15000 \<rparr>],
     next_timer = 1, next_deferred = 1, settled = [],
     posted = [(\<lparr> m_name = ''get-environment'', m_gid = JStr ''g1'',
                  m_origin = JStr ''https://gadgets.example.com/apps/demo/index.html'',
                  m_token = JUndef, m_place = JUndef, m_payload = JUndef, m_callback = ''id-0'' \<rparr>,
                JStr ''https://cms.example.com'')],
     triggered = [], console = [], waiting = [], proceeded = [],
     init_chain = Some (0, [(''url'', JStr ''https://gadgets.example.com/apps/demo/index.html''),
        (''name'', JStr ''demo''), (''msghost'', JStr ''https://cms.example.com/11/''),
        (''gid'', JStr ''g1'')]) \<rparr>"
  unfolding example_page_def collectData_def example_urlData
  by (simp add: Let_def gadget_set_def assign_def obj_set_def obj_get_def initial_bridge_def
      example_normalize[unfolded example_location_def] example_location_def
      sendMessageToTop_def request_timeout_def new_deferred_def first_settlement_def)

subsection \<open>Settling a request\<close>




lemma rejections_settle [simp]:
  "rejections (settle d (Reject e) st) d' = rejections st d' + (if d' = d then 1 else 0)"
  "rejections (settle d (Resolve v) st) d' = rejections st d'"
  "resolutions (settle d (Resolve v) st) d' = resolutions st d' + (if d' = d then 1 else 0)"
  "resolutions (settle d (Reject e) st) d' = resolutions st d'"
  by (simp_all add: rejections_def resolutions_def)








lemma run_Cons [simp]: "run json_parse (a # acts) st = run json_parse acts (step json_parse a st)"
  by (simp add: run_def)

subsection \<open>Objects\<close>

lemma obj_get_assign:
  "obj_get (assign target kvs) k =
     (case map_of (rev kvs) k of None \<Rightarrow> obj_get target k | Some v \<Rightarrow> v)"
proof (induction kvs arbitrary: target)
  case Nil
  then show ?case by (simp add: assign_def)
next
  case (Cons p kvs)
  obtain k' v' where p: "p = (k', v')" by (cases p)
  have "assign target (p # kvs) = assign (obj_set target k' v') kvs" by (simp add: assign_def p)
  then show ?case using Cons[of "obj_set target k' v'"]
    by (auto simp: p obj_get_set map_add_def split: option.splits)
qed

lemma map_of_rev_distinct: "distinct (map fst xs) \<Longrightarrow> map_of (rev xs) = map_of xs"
proof (induction xs)
  case Nil
  then show ?case by simp
next
  case (Cons x xs)
  then have n: "map_of xs (fst x) = None" and d: "distinct (map fst xs)"
    by (auto simp: map_of_eq_None_iff)
  have "map_of (rev (x # xs)) k = map_of (x # xs) k" for k
    using Cons.IH[OF d] n by (cases x) (auto simp: map_add_def split: option.splits)
  then show ?case by blast
qed

lemma map_of_rev_clearjunk: "map_of (rev (AList.clearjunk kvs)) = map_of kvs"
  by (simp add: map_of_rev_distinct map_of_clearjunk)

lemma obj_get_assign_object:
  "obj_get (assign target (own_props (JObj kvs))) k =
     (if k \<in> fst ` set kvs then obj_get kvs k else obj_get target k)"
proof (cases "map_of kvs k")
  case None
  then have "k \<notin> fst ` set kvs" by (simp add: map_of_eq_None_iff)
  then show ?thesis using None by (simp add: obj_get_assign map_of_rev_clearjunk)
next
  case (Some v)
  then have "k \<in> fst ` set kvs" by (metis map_of_eq_None_iff option.distinct(1))
  moreover have "obj_get kvs k = v" using Some by (simp add: obj_get_def)
  ultimately show ?thesis using Some by (simp add: obj_get_assign map_of_rev_clearjunk)
qed



lemma distinct_obj_set: "distinct (map fst ob) \<Longrightarrow> distinct (map fst (obj_set ob k v))"
  by (simp add: obj_set_def distinct_update)

lemma distinct_assign: "distinct (map fst target) \<Longrightarrow> distinct (map fst (assign target kvs))"
proof (induction kvs arbitrary: target)
  case Nil
  then show ?case by (simp add: assign_def)
next
  case (Cons p kvs)
  obtain k' v' where p: "p = (k', v')" by (cases p)
  have "assign target (p # kvs) = assign (obj_set target k' v') kvs" by (simp add: assign_def p)
  then show ?case using Cons.IH[OF distinct_obj_set[OF Cons.prems, of k' v']] by simp
qed

lemma obj_get_empty [simp]: "obj_get [] k = JUndef"
  by (simp add: obj_get_def)

lemma obj_get_absent: "k \<notin> fst ` set ob \<Longrightarrow> obj_get ob k = JUndef"
  by (simp add: obj_get_def map_of_eq_None_iff[THEN iffD2])

lemma gadget_set_object:
  "obj_get (gadget_set this (JObj kvs) arg1) k =
     (if k \<in> fst ` set kvs then obj_get kvs k else obj_get this k)"
  by (simp add: gadget_set_def obj_get_assign_object del: own_props.simps)





subsection \<open>Initialisation\<close>

lemma gadget_set_fresh: "obj_get (gadget_set [] (JObj u) x) k = obj_get u k"
  by (simp add: gadget_set_object obj_get_absent)

lemma map_of_strings:
  "map_of (rev (map (\<lambda>(key, value). (key, JStr value)) ps)) k = Some v \<Longrightarrow> \<exists>s. v = JStr s"
  by (auto dest!: map_of_SomeD)

lemma getUrlData_not_number: "obj_get (getUrlData loc) k \<noteq> JNum n"
proof -
  have b: "obj_get [(''url'', JStr u), (''name'', at_minus_2 segs)] k \<noteq> JNum n" for u segs
    by (simp add: obj_get_def at_minus_2_def)
  show ?thesis
  proof (cases "map_of (rev (map (\<lambda>(key, value). (key, JStr value)) (loc_params loc))) k")
    case None
    then show ?thesis using b by (simp add: getUrlData_def Let_def obj_get_assign obj_set_def)
  next
    case (Some v)
    from map_of_strings[OF this] obtain s where "v = JStr s" by blast
    then show ?thesis using Some by (simp add: getUrlData_def Let_def obj_get_assign)
  qed
qed


lemma collectData_unfold:
  "collectData url_origin loc msgid thrown initial_bridge =
    (let urlData = getUrlData loc;
         st2 = initial_bridge\<lparr> env := obj_set (gadget_set [] (JObj urlData) JUndef) ''msghostOrigin''
                  (normalizeOrigin url_origin (loc_protocol loc) (obj_get urlData ''msghost'')) \<rparr>;
         (d, st3) = sendMessageToTop ''get-environment'' JUndef JUndef msgid thrown st2
     in case first_settlement st3 d of
          None \<Rightarrow> st3\<lparr> init_chain := Some (d, urlData) \<rparr>
        | Some s \<Rightarrow> run_init_chain urlData s st3)"
  by (simp add: collectData_def Let_def gadget_set_fresh initial_bridge_def)







lemma init_chain_clearPending_registered [simp]:
  "init_chain (clearPending k (registered n m tm st)) = init_chain st"
  by simp

















subsection \<open>The trusted origin\<close>




















lemma send_env:
  assumes "init_chain st = None"
  shows "env (snd (sendMessageToTop name payload opt msgid thrown st)) = env st"
    and "init_chain (snd (sendMessageToTop name payload opt msgid thrown st)) = None"
proof -
  have s: "settle d s st1 = st1\<lparr> settled := settled st1 @ [(d, s)] \<rparr>" if "init_chain st1 = None" for d s st1
    using that by (simp add: settle_def Let_def)
  show "env (snd (sendMessageToTop name payload opt msgid thrown st)) = env st"
    and "init_chain (snd (sendMessageToTop name payload opt msgid thrown st)) = None"
    using assms
    by (cases "truthy (obj_get (env st) ''msghostOrigin'')"; cases thrown;
        simp add: send_missing send_usable Let_def s)+
qed

lemma collectData_origin:
  "obj_get (env (collectData url_origin loc msgid thrown initial_bridge)) ''msghostOrigin'' =
     normalizeOrigin url_origin (loc_protocol loc) (obj_get (getUrlData loc) ''msghost'')"
proof -
  define st2 where "st2 = initial_bridge\<lparr> env := obj_set (gadget_set [] (JObj (getUrlData loc)) JUndef) ''msghostOrigin''
                  (normalizeOrigin url_origin (loc_protocol loc) (obj_get (getUrlData loc) ''msghost'')) \<rparr>"
  have i: "init_chain st2 = None" by (simp add: st2_def initial_bridge_def)
  obtain d st3 where s: "sendMessageToTop ''get-environment'' JUndef JUndef msgid thrown st2 = (d, st3)"
    by (cases "sendMessageToTop ''get-environment'' JUndef JUndef msgid thrown st2")
  from send_env(1)[OF i, of "''get-environment''" JUndef JUndef msgid thrown] s
  have e: "env st3 = env st2" by simp
  have o: "obj_get (env st2) ''msghostOrigin'' =
     normalizeOrigin url_origin (loc_protocol loc) (obj_get (getUrlData loc) ''msghost'')"
    by (simp add: st2_def obj_get_set)
  have r: "obj_get (env (run_init_chain u x st3)) ''msghostOrigin'' = obj_get (env st3) ''msghostOrigin''"
    if "\<forall>p. x \<noteq> Resolve p" for u x
    using that by (cases x) (simp_all add: run_init_chain_def init_fail_def Let_def obj_get_set)
  have z: "settled st2 = []" by (simp add: st2_def initial_bridge_def)
  have st: "settled st3 = [] \<or> (\<exists>e. settled st3 = [(d, Reject e)])"
    using s z i
    by (cases "truthy (obj_get (env st2) ''msghostOrigin'')"; cases thrown)
       (auto simp: send_missing send_usable Let_def settle_def)
  have n: "first_settlement st3 d = Some x \<Longrightarrow> \<forall>p. x \<noteq> Resolve p" for x
    using st by (auto simp: first_settlement_def)
  show ?thesis
    unfolding collectData_unfold Let_def st2_def[symmetric] s prod.case
    using e o r n by (auto split: option.splits)
qed


section \<open>Properties of the bridge with a listener per request\<close>

lemma set_lib_eq: "set_lib this arg0 arg1 = gadget_set this arg0 arg1"
  by (cases arg0) (simp_all add: set_lib_def gadget_set_def assign_def)

lemma trigger_lib_fields [simp]:
  "p_calls (trigger_lib n p st) = p_calls st"
  "p_listeners (trigger_lib n p st) = p_listeners st"
  "p_timers (trigger_lib n p st) = p_timers st"
  "p_next_timer (trigger_lib n p st) = p_next_timer st"
  "p_next_deferred (trigger_lib n p st) = p_next_deferred st"
  "p_settled (trigger_lib n p st) = p_settled st"
  "p_posted (trigger_lib n p st) = p_posted st"
  "p_env (trigger_lib n p st) = p_env st"
  "p_init_chain (trigger_lib n p st) = p_init_chain st"
  "p_console (trigger_lib n p st) = p_console st"
  "p_triggered (trigger_lib n p st) = p_triggered st @ [(n, p)]"
  by (simp_all add: trigger_lib_def Let_def)

lemma run_init_chain_lib_fields [simp]:
  "p_calls (run_init_chain_lib u s st) = p_calls st"
  "p_listeners (run_init_chain_lib u s st) = p_listeners st"
  "p_timers (run_init_chain_lib u s st) = p_timers st"
  "p_next_timer (run_init_chain_lib u s st) = p_next_timer st"
  "p_next_deferred (run_init_chain_lib u s st) = p_next_deferred st"
  "p_settled (run_init_chain_lib u s st) = p_settled st"
  "p_posted (run_init_chain_lib u s st) = p_posted st"
  "p_init_chain (run_init_chain_lib u s st) = p_init_chain st"
  "p_triggered (run_init_chain_lib u s st) = p_triggered st @ [(JStr ''ready'', JUndef)]"
  by (cases s; simp add: run_init_chain_lib_def init_then_lib_def init_fail_lib_def
        collectData_then_lib_def Let_def)+

lemma settle_lib_fields [simp]:
  "p_calls (settle_lib d s st) = p_calls st"
  "p_listeners (settle_lib d s st) = p_listeners st"
  "p_timers (settle_lib d s st) = p_timers st"
  "p_next_timer (settle_lib d s st) = p_next_timer st"
  "p_next_deferred (settle_lib d s st) = p_next_deferred st"
  "p_posted (settle_lib d s st) = p_posted st"
  "p_settled (settle_lib d s st) = p_settled st @ [(d, s)]"
  by (simp_all add: settle_lib_def Let_def split: option.splits)

lemma cleanup_fields [simp]:
  "p_next_timer (cleanup k st) = p_next_timer st"
  "p_next_deferred (cleanup k st) = p_next_deferred st"
  "p_settled (cleanup k st) = p_settled st"
  "p_posted (cleanup k st) = p_posted st"
  "p_env (cleanup k st) = p_env st"
  "p_init_chain (cleanup k st) = p_init_chain st"
  "p_triggered (cleanup k st) = p_triggered st"
  "p_console (cleanup k st) = p_console st"
  "p_waiting (cleanup k st) = p_waiting st"
  "p_proceeded (cleanup k st) = p_proceeded st"
  by (simp_all add: cleanup_def Let_def split: option.splits)

lemma cleanup_idem: "cleanup k (cleanup k st) = cleanup k st"
  by (simp add: cleanup_def Let_def split: option.splits)

lemma cleanup_done:
  "p_calls st k = Some v \<Longrightarrow> rv_cleanedUp v \<Longrightarrow> cleanup k st = st"
  by (simp add: cleanup_def)

lemma cleanup_listeners: "RequestListener k \<notin> set (p_listeners (cleanup k st)) \<or> (\<exists>v. p_calls st k = Some v \<and> rv_cleanedUp v) \<or> p_calls st k = None"
  by (auto simp: cleanup_def Let_def split: option.splits)

lemma cleanup_listeners_subset: "set (p_listeners (cleanup k st)) \<subseteq> set (p_listeners st)"
  by (auto simp: cleanup_def Let_def split: option.splits)

lemma cleanup_timers: "p_timers (cleanup k st) tid = Some k' \<Longrightarrow> p_timers st tid = Some k'"
  by (auto simp: cleanup_def Let_def split: option.splits if_splits)

lemma cleanup_calls:
  "p_calls (cleanup k st) k' = Some v' \<Longrightarrow>
     \<exists>v. p_calls st k' = Some v \<and> rv_timerId v' = rv_timerId v \<and> rv_msgid v' = rv_msgid v
        \<and> (rv_cleanedUp v \<longrightarrow> rv_cleanedUp v') \<and> (k' \<noteq> k \<longrightarrow> v' = v)"
  by (auto simp: cleanup_def Let_def split: option.splits if_splits)

lemma settle_count_lib_settle [simp]:
  "settle_count_lib (settle_lib d s st) d' = settle_count_lib st d' + (if d' = d then 1 else 0)"
  by (simp add: settle_count_lib_def)

lemma settle_count_lib_cleanup [simp]: "settle_count_lib (cleanup k st) d = settle_count_lib st d"
  by (simp add: settle_count_lib_def)

lemma settle_count_lib_zero_iff:
  "settle_count_lib st d = 0 \<longleftrightarrow> (\<forall>s. (d, s) \<notin> set (p_settled st))"
  by (auto simp: settle_count_lib_def filter_empty_conv)

lemma settle_count_lib_split: "settle_count_lib st d = resolutions_lib st d + rejections_lib st d"
  unfolding settle_count_lib_def resolutions_lib_def rejections_lib_def by (rule count_split)

lemma consistent_libI:
  assumes "\<And>d. settle_count_lib st d \<le> 1"
    and "\<And>d s. (d, s) \<in> set (p_settled st) \<Longrightarrow> d < p_next_deferred st"
    and "\<And>k v. p_calls st k = Some v \<Longrightarrow> k < p_next_deferred st"
    and "\<And>k. RequestListener k \<in> set (p_listeners st) \<Longrightarrow>
           (\<exists>v. p_calls st k = Some v \<and> \<not> rv_cleanedUp v) \<and> settle_count_lib st k = 0"
    and "\<And>tid k. p_timers st tid = Some k \<Longrightarrow>
           (\<exists>v. p_calls st k = Some v \<and> \<not> rv_cleanedUp v \<and> rv_timerId v = Some tid)
           \<and> settle_count_lib st k = 0 \<and> tid \<le> p_next_timer st"
  shows "consistent_lib st"
  unfolding consistent_lib_def using assms by blast

lemma consistent_libD:
  assumes "consistent_lib st"
  shows "settle_count_lib st d \<le> 1"
    and "(d, s) \<in> set (p_settled st) \<Longrightarrow> d < p_next_deferred st"
    and "p_calls st k = Some v \<Longrightarrow> k < p_next_deferred st"
    and "RequestListener k \<in> set (p_listeners st) \<Longrightarrow> \<exists>v. p_calls st k = Some v \<and> \<not> rv_cleanedUp v"
    and "RequestListener k \<in> set (p_listeners st) \<Longrightarrow> settle_count_lib st k = 0"
    and "p_timers st tid = Some k \<Longrightarrow> \<exists>v. p_calls st k = Some v \<and> \<not> rv_cleanedUp v \<and> rv_timerId v = Some tid"
    and "p_timers st tid = Some k \<Longrightarrow> settle_count_lib st k = 0"
    and "p_timers st tid = Some k \<Longrightarrow> tid \<le> p_next_timer st"
  using assms unfolding consistent_lib_def by blast+

lemma consistent_lib_initial: "consistent_lib initial_page"
  by (simp add: consistent_lib_def initial_page_def settle_count_lib_def)

lemma consistent_lib_cong:
  assumes "consistent_lib st" "p_calls st' = p_calls st" "p_listeners st' = p_listeners st"
    "p_timers st' = p_timers st" "p_next_timer st' = p_next_timer st"
    "p_next_deferred st' = p_next_deferred st" "p_settled st' = p_settled st"
  shows "consistent_lib st'"
  using assms unfolding consistent_lib_def settle_count_lib_def by simp

lemma fresh_deferred_lib:
  "consistent_lib st \<Longrightarrow> settle_count_lib st (p_next_deferred st) = 0"
  using consistent_libD(2)[of st "p_next_deferred st"] by (auto simp: settle_count_lib_zero_iff)

lemma cleanup_calls_other: "k' \<noteq> k \<Longrightarrow> p_calls (cleanup k st) k' = p_calls st k'"
  by (simp add: cleanup_def Let_def split: option.splits)

lemma cleanup_own_timer:
  "p_calls st k = Some v \<Longrightarrow> \<not> rv_cleanedUp v \<Longrightarrow> rv_timerId v = Some tid \<Longrightarrow>
     p_timers (cleanup k st) tid = None"
  by (simp add: cleanup_def Let_def)

lemma cleanup_own_listener:
  "p_calls st k = Some v \<Longrightarrow> \<not> rv_cleanedUp v \<Longrightarrow> RequestListener k \<notin> set (p_listeners (cleanup k st))"
  by (simp add: cleanup_def Let_def split: option.splits)

lemma cleanup_own_call:
  "p_calls st k = Some v \<Longrightarrow> \<exists>v'. p_calls (cleanup k st) k = Some v' \<and> rv_cleanedUp v'"
  by (simp add: cleanup_def Let_def split: option.splits)

lemma consistent_lib_settle_cleaned:
  assumes c: "consistent_lib st" and z: "settle_count_lib st k = 0" and n: "k < p_next_deferred st"
  shows "consistent_lib (settle_lib k s (cleanup k st))"
proof (rule consistent_libI)
  fix d show "settle_count_lib (settle_lib k s (cleanup k st)) d \<le> 1"
    using consistent_libD(1)[OF c, of d] z by simp
next
  fix d s' assume "(d, s') \<in> set (p_settled (settle_lib k s (cleanup k st)))"
  then show "d < p_next_deferred (settle_lib k s (cleanup k st))"
    using consistent_libD(2)[OF c, of d s'] n by auto
next
  fix k' v assume "p_calls (settle_lib k s (cleanup k st)) k' = Some v"
  then have "p_calls (cleanup k st) k' = Some v" by simp
  from cleanup_calls[OF this] obtain v0 where "p_calls st k' = Some v0" by blast
  then show "k' < p_next_deferred (settle_lib k s (cleanup k st))"
    using consistent_libD(3)[OF c] by simp
next
  fix k' assume "RequestListener k' \<in> set (p_listeners (settle_lib k s (cleanup k st)))"
  then have l: "RequestListener k' \<in> set (p_listeners (cleanup k st))" by simp
  then have l0: "RequestListener k' \<in> set (p_listeners st)" using cleanup_listeners_subset by blast
  from consistent_libD(4)[OF c l0] obtain v where v: "p_calls st k' = Some v" "\<not> rv_cleanedUp v" by blast
  have ne: "k' \<noteq> k"
  proof
    assume "k' = k"
    with v cleanup_own_listener[of st k v] l show False by simp
  qed
  from consistent_libD(5)[OF c l0] ne v
  show "(\<exists>v. p_calls (settle_lib k s (cleanup k st)) k' = Some v \<and> \<not> rv_cleanedUp v)
        \<and> settle_count_lib (settle_lib k s (cleanup k st)) k' = 0"
    by (simp add: cleanup_calls_other)
next
  fix tid k' assume "p_timers (settle_lib k s (cleanup k st)) tid = Some k'"
  then have t: "p_timers (cleanup k st) tid = Some k'" by simp
  then have t0: "p_timers st tid = Some k'" by (rule cleanup_timers)
  from consistent_libD(6)[OF c t0] obtain v where
    v: "p_calls st k' = Some v" "\<not> rv_cleanedUp v" "rv_timerId v = Some tid" by blast
  have ne: "k' \<noteq> k"
  proof
    assume "k' = k"
    with v cleanup_own_timer[of st k v tid] t show False by simp
  qed
  from consistent_libD(7,8)[OF c t0] ne v
  show "(\<exists>v. p_calls (settle_lib k s (cleanup k st)) k' = Some v \<and> \<not> rv_cleanedUp v \<and> rv_timerId v = Some tid)
        \<and> settle_count_lib (settle_lib k s (cleanup k st)) k' = 0
        \<and> tid \<le> p_next_timer (settle_lib k s (cleanup k st))"
    by (simp add: cleanup_calls_other)
qed

lemma consistent_lib_new_deferred:
  assumes c: "consistent_lib st"
  shows "consistent_lib (st\<lparr> p_next_deferred := p_next_deferred st + 1 \<rparr>)"
proof (rule consistent_libI)
  fix d show "settle_count_lib (st\<lparr> p_next_deferred := p_next_deferred st + 1 \<rparr>) d \<le> 1"
    using consistent_libD(1)[OF c, of d] by (simp add: settle_count_lib_def)
next
  fix d s assume "(d, s) \<in> set (p_settled (st\<lparr> p_next_deferred := p_next_deferred st + 1 \<rparr>))"
  then show "d < p_next_deferred (st\<lparr> p_next_deferred := p_next_deferred st + 1 \<rparr>)"
    using consistent_libD(2)[OF c, of d s] by simp
next
  fix k v assume "p_calls (st\<lparr> p_next_deferred := p_next_deferred st + 1 \<rparr>) k = Some v"
  then show "k < p_next_deferred (st\<lparr> p_next_deferred := p_next_deferred st + 1 \<rparr>)"
    using consistent_libD(3)[OF c, of k v] by simp
next
  fix k assume "RequestListener k \<in> set (p_listeners (st\<lparr> p_next_deferred := p_next_deferred st + 1 \<rparr>))"
  then show "(\<exists>v. p_calls (st\<lparr> p_next_deferred := p_next_deferred st + 1 \<rparr>) k = Some v \<and> \<not> rv_cleanedUp v)
        \<and> settle_count_lib (st\<lparr> p_next_deferred := p_next_deferred st + 1 \<rparr>) k = 0"
    using consistent_libD(4,5)[OF c, of k] by (simp add: settle_count_lib_def)
next
  fix tid k assume "p_timers (st\<lparr> p_next_deferred := p_next_deferred st + 1 \<rparr>) tid = Some k"
  then show "(\<exists>v. p_calls (st\<lparr> p_next_deferred := p_next_deferred st + 1 \<rparr>) k = Some v
               \<and> \<not> rv_cleanedUp v \<and> rv_timerId v = Some tid)
        \<and> settle_count_lib (st\<lparr> p_next_deferred := p_next_deferred st + 1 \<rparr>) k = 0
        \<and> tid \<le> p_next_timer (st\<lparr> p_next_deferred := p_next_deferred st + 1 \<rparr>)"
    using consistent_libD(6,7,8)[OF c, of tid k] by (simp add: settle_count_lib_def)
qed

lemma send_lib_missing:
  assumes "\<not> truthy (obj_get (p_env st) ''msghost'')"
  shows "sendMessageToTop_lib name payload opt msgid thrown st =
     (p_next_deferred st,
      settle_lib (p_next_deferred st) (Reject (missing_msghost_error_lib name msgid))
        (st\<lparr> p_next_deferred := p_next_deferred st + 1 \<rparr>))"
  using assms by (simp add: sendMessageToTop_lib_def new_deferred_lib_def Let_def)

lemma send_lib_usable:
  assumes "truthy (obj_get (p_env st) ''msghost'')"
  shows "sendMessageToTop_lib name payload opt msgid thrown st =
     (let st3 = registered_lib name msgid (request_timeout_lib st opt) st in
      case thrown of
        None \<Rightarrow> (p_next_deferred st,
                 st3\<lparr> p_posted := p_posted st3 @
                   [(\<lparr> m_name = name, m_gid = obj_get (p_env st) ''gid'',
                       m_origin = obj_get (p_env st) ''url'', m_token = obj_get (p_env st) ''token'',
                       m_place = obj_get (p_env st) ''place'', m_payload = payload,
                       m_callback = msgid \<rparr>, obj_get (p_env st) ''msghost'')] \<rparr>)
      | Some e \<Rightarrow> (p_next_deferred st, settle_lib (p_next_deferred st) (Reject e) (cleanup (p_next_deferred st) st3)))"
  using assms
  by (simp add: sendMessageToTop_lib_def new_deferred_lib_def registered_lib_def Let_def
      request_timeout_lib_def split: option.splits)

lemma registered_lib_fields [simp]:
  "p_next_deferred (registered_lib name msgid tm st) = p_next_deferred st + 1"
  "p_settled (registered_lib name msgid tm st) = p_settled st"
  "p_posted (registered_lib name msgid tm st) = p_posted st"
  "p_env (registered_lib name msgid tm st) = p_env st"
  "p_init_chain (registered_lib name msgid tm st) = p_init_chain st"
  "p_triggered (registered_lib name msgid tm st) = p_triggered st"
  "p_console (registered_lib name msgid tm st) = p_console st"
  "p_waiting (registered_lib name msgid tm st) = p_waiting st"
  "p_proceeded (registered_lib name msgid tm st) = p_proceeded st"
  "p_listeners (registered_lib name msgid tm st) = p_listeners st @ [RequestListener (p_next_deferred st)]"
  by (simp_all add: registered_lib_def Let_def)

lemma registered_lib_calls:
  "p_calls (registered_lib name msgid tm st) k =
     (if k = p_next_deferred st
      then Some \<lparr> rv_name = name, rv_msgid = msgid, rv_timeoutMs = tm,
                  rv_timerId = (if finite_positive tm then Some (Suc (p_next_timer st)) else None),
                  rv_cleanedUp = False \<rparr>
      else p_calls st k)"
  by (simp add: registered_lib_def Let_def)

lemma registered_lib_timers:
  "p_timers (registered_lib name msgid tm st) tid =
     (if finite_positive tm \<and> tid = Suc (p_next_timer st) then Some (p_next_deferred st)
      else p_timers st tid)"
  by (simp add: registered_lib_def Let_def)

lemma registered_lib_next_timer:
  "p_next_timer (registered_lib name msgid tm st) =
     (if finite_positive tm then Suc (p_next_timer st) else p_next_timer st)"
  by (simp add: registered_lib_def Let_def)

lemma settle_count_lib_registered [simp]:
  "settle_count_lib (registered_lib name msgid tm st) d = settle_count_lib st d"
  by (simp add: settle_count_lib_def)

lemma consistent_lib_registered:
  assumes c: "consistent_lib st"
  shows "consistent_lib (registered_lib name msgid tm st)"
proof (rule consistent_libI)
  fix d show "settle_count_lib (registered_lib name msgid tm st) d \<le> 1"
    using consistent_libD(1)[OF c, of d] by simp
next
  fix d s assume "(d, s) \<in> set (p_settled (registered_lib name msgid tm st))"
  then show "d < p_next_deferred (registered_lib name msgid tm st)"
    using consistent_libD(2)[OF c, of d s] by simp
next
  fix k v assume "p_calls (registered_lib name msgid tm st) k = Some v"
  then show "k < p_next_deferred (registered_lib name msgid tm st)"
    using consistent_libD(3)[OF c, of k] by (cases "k = p_next_deferred st") (simp_all add: registered_lib_calls)
next
  fix k assume l: "RequestListener k \<in> set (p_listeners (registered_lib name msgid tm st))"
  show "(\<exists>v. p_calls (registered_lib name msgid tm st) k = Some v \<and> \<not> rv_cleanedUp v)
        \<and> settle_count_lib (registered_lib name msgid tm st) k = 0"
  proof (cases "k = p_next_deferred st")
    case True
    then show ?thesis using fresh_deferred_lib[OF c] by (simp add: registered_lib_calls)
  next
    case False
    with l have "RequestListener k \<in> set (p_listeners st)" by simp
    from consistent_libD(4,5)[OF c this] False show ?thesis by (simp add: registered_lib_calls)
  qed
next
  fix tid k assume t: "p_timers (registered_lib name msgid tm st) tid = Some k"
  show "(\<exists>v. p_calls (registered_lib name msgid tm st) k = Some v \<and> \<not> rv_cleanedUp v \<and> rv_timerId v = Some tid)
        \<and> settle_count_lib (registered_lib name msgid tm st) k = 0
        \<and> tid \<le> p_next_timer (registered_lib name msgid tm st)"
  proof (cases "finite_positive tm \<and> tid = Suc (p_next_timer st)")
    case True
    with t have "k = p_next_deferred st" by (simp add: registered_lib_timers)
    then show ?thesis using True fresh_deferred_lib[OF c]
      by (simp add: registered_lib_calls registered_lib_next_timer)
  next
    case False
    with t have t0: "p_timers st tid = Some k" by (simp add: registered_lib_timers)
    from consistent_libD(6)[OF c t0] obtain v where
      v: "p_calls st k = Some v" "\<not> rv_cleanedUp v" "rv_timerId v = Some tid" by blast
    from consistent_libD(3)[OF c v(1)] have "k \<noteq> p_next_deferred st" by simp
    with v consistent_libD(7,8)[OF c t0] show ?thesis
      by (simp add: registered_lib_calls registered_lib_next_timer)
  qed
qed

lemma consistent_lib_posted: "consistent_lib st \<Longrightarrow> consistent_lib (st\<lparr> p_posted := x \<rparr>)"
  by (erule consistent_lib_cong) simp_all

lemma consistent_lib_env: "consistent_lib st \<Longrightarrow> consistent_lib (st\<lparr> p_env := x \<rparr>)"
  by (erule consistent_lib_cong) simp_all

lemma consistent_lib_console: "consistent_lib st \<Longrightarrow> consistent_lib (st\<lparr> p_console := x \<rparr>)"
  by (erule consistent_lib_cong) simp_all

lemma consistent_lib_trigger: "consistent_lib st \<Longrightarrow> consistent_lib (trigger_lib n p st)"
  by (erule consistent_lib_cong) simp_all

lemma consistent_lib_ready: "consistent_lib st \<Longrightarrow> consistent_lib (ready_lib cb st)"
  by (erule consistent_lib_cong) (simp_all add: ready_lib_def)

lemma cleanup_unknown: "p_calls st k = None \<Longrightarrow> cleanup k st = st"
  by (simp add: cleanup_def)

lemma consistent_lib_send:
  assumes c: "consistent_lib st"
  shows "consistent_lib (snd (sendMessageToTop_lib name payload opt msgid thrown st))"
proof (cases "truthy (obj_get (p_env st) ''msghost'')")
  case False
  let ?st1 = "st\<lparr> p_next_deferred := p_next_deferred st + 1 \<rparr>"
  have c1: "consistent_lib ?st1" using c by (rule consistent_lib_new_deferred)
  have z: "settle_count_lib ?st1 (p_next_deferred st) = 0"
    using fresh_deferred_lib[OF c] by (simp add: settle_count_lib_def)
  have "p_calls ?st1 (p_next_deferred st) = None"
    using consistent_libD(3)[OF c, of "p_next_deferred st"] by (cases "p_calls st (p_next_deferred st)") auto
  then have u: "cleanup (p_next_deferred st) ?st1 = ?st1" by (rule cleanup_unknown)
  from consistent_lib_settle_cleaned[OF c1 z, of "Reject (missing_msghost_error_lib name msgid)"]
  show ?thesis unfolding u by (simp add: send_lib_missing[OF False])
next
  case True
  let ?st3 = "registered_lib name msgid (request_timeout_lib st opt) st"
  have c3: "consistent_lib ?st3" using c by (rule consistent_lib_registered)
  have z: "settle_count_lib ?st3 (p_next_deferred st) = 0" using fresh_deferred_lib[OF c] by simp
  show ?thesis
  proof (cases thrown)
    case None
    then show ?thesis using consistent_lib_posted[OF c3] by (simp add: send_lib_usable[OF True] Let_def)
  next
    case (Some e)
    from consistent_lib_settle_cleaned[OF c3 z, of "Reject e"] Some
    show ?thesis by (simp add: send_lib_usable[OF True] Let_def)
  qed
qed

lemma consistent_lib_timer_fires:
  assumes c: "consistent_lib st"
  shows "consistent_lib (timer_fires_lib tid st)"
proof (cases "p_timers st tid")
  case None
  then show ?thesis using c by (simp add: timer_fires_lib_def)
next
  case (Some k)
  from consistent_libD(6)[OF c Some] obtain v where
    v: "p_calls st k = Some v" "\<not> rv_cleanedUp v" "rv_timerId v = Some tid" by blast
  let ?st1 = "st\<lparr> p_timers := (p_timers st)(tid := None) \<rparr>"
  have c1: "consistent_lib ?st1"
  proof (rule consistent_libI)
    fix d show "settle_count_lib ?st1 d \<le> 1" using consistent_libD(1)[OF c, of d] by (simp add: settle_count_lib_def)
  next
    fix d s assume "(d, s) \<in> set (p_settled ?st1)"
    then show "d < p_next_deferred ?st1" using consistent_libD(2)[OF c, of d s] by simp
  next
    fix k' v' assume "p_calls ?st1 k' = Some v'"
    then show "k' < p_next_deferred ?st1" using consistent_libD(3)[OF c, of k' v'] by simp
  next
    fix k' assume "RequestListener k' \<in> set (p_listeners ?st1)"
    then show "(\<exists>v. p_calls ?st1 k' = Some v \<and> \<not> rv_cleanedUp v) \<and> settle_count_lib ?st1 k' = 0"
      using consistent_libD(4,5)[OF c, of k'] by (simp add: settle_count_lib_def)
  next
    fix tid' k' assume "p_timers ?st1 tid' = Some k'"
    then have "p_timers st tid' = Some k'" by (simp split: if_splits)
    from consistent_libD(6,7,8)[OF c this]
    show "(\<exists>v. p_calls ?st1 k' = Some v \<and> \<not> rv_cleanedUp v \<and> rv_timerId v = Some tid')
        \<and> settle_count_lib ?st1 k' = 0 \<and> tid' \<le> p_next_timer ?st1"
      by (simp add: settle_count_lib_def)
  qed
  have z: "settle_count_lib ?st1 k = 0" using consistent_libD(7)[OF c Some] by (simp add: settle_count_lib_def)
  have n: "k < p_next_deferred ?st1" using consistent_libD(3)[OF c v(1)] by simp
  from consistent_lib_settle_cleaned[OF c1 z n, of "Reject (timeout_error_lib v)"]
  show ?thesis using Some v by (simp add: timer_fires_lib_def Let_def)
qed

lemma consistent_lib_request_listener:
  assumes c: "consistent_lib st" and l: "RequestListener k \<in> set (p_listeners st)"
  shows "consistent_lib (request_listener json_parse k event st)"
proof -
  from consistent_libD(4)[OF c l] obtain v where v: "p_calls st k = Some v" "\<not> rv_cleanedUp v" by blast
  have z: "settle_count_lib st k = 0" using consistent_libD(5)[OF c l] .
  have n: "k < p_next_deferred st" using consistent_libD(3)[OF c v(1)] .
  have w: "consistent_lib (st\<lparr> p_console := x \<rparr>)" for x using c by (rule consistent_lib_console)
  have zw: "settle_count_lib (st\<lparr> p_console := x \<rparr>) k = 0" for x using z by (simp add: settle_count_lib_def)
  have nw: "k < p_next_deferred (st\<lparr> p_console := x \<rparr>)" for x using n by simp
  show ?thesis
    using v c w consistent_lib_settle_cleaned[OF c z n] consistent_lib_settle_cleaned[OF w zw nw]
    by (auto simp: request_listener_def Let_def split: prod.splits)
qed

lemma consistent_lib_messageHandler:
  assumes c: "consistent_lib st"
  shows "consistent_lib (messageHandler_lib json_parse event st)"
  using c consistent_lib_console[OF c] consistent_lib_trigger
  by (auto simp: messageHandler_lib_def Let_def split: prod.splits)

lemma consistent_lib_deliver:
  assumes c: "consistent_lib st" and l: "l \<in> set (p_listeners st)"
  shows "consistent_lib (deliver json_parse l event st)"
  using assms by (cases l) (simp_all add: consistent_lib_request_listener consistent_lib_messageHandler)

lemma consistent_lib_fold:
  "consistent_lib st \<Longrightarrow>
   consistent_lib (fold (\<lambda>l s. if l \<in> set (p_listeners s) then deliver json_parse l event s else s) ls st)"
  by (induction ls arbitrary: st) (simp_all add: consistent_lib_deliver)

lemma consistent_lib_dispatch: "consistent_lib st \<Longrightarrow> consistent_lib (dispatch json_parse event st)"
  unfolding dispatch_def by (rule consistent_lib_fold)

lemma consistent_lib_step: "consistent_lib st \<Longrightarrow> consistent_lib (step_lib json_parse a st)"
  by (cases a) (simp_all add: consistent_lib_send consistent_lib_env consistent_lib_ready
      consistent_lib_dispatch consistent_lib_timer_fires)

lemma run_lib_Nil [simp]: "run_lib json_parse [] st = st"
  by (simp add: run_lib_def)

lemma run_lib_Cons [simp]: "run_lib json_parse (a # acts) st = run_lib json_parse acts (step_lib json_parse a st)"
  by (simp add: run_lib_def)

lemma run_lib_append: "run_lib json_parse (xs @ ys) st = run_lib json_parse ys (run_lib json_parse xs st)"
  by (simp add: run_lib_def)

lemma consistent_lib_run: "consistent_lib st \<Longrightarrow> consistent_lib (run_lib json_parse acts st)"
  by (induction acts arbitrary: st) (simp_all add: consistent_lib_step)

lemma consistent_lib_collectData:
  assumes "consistent_lib st"
  shows "consistent_lib (collectData_lib loc msgid thrown st)"
proof -
  define st1 where "st1 = st\<lparr> p_env := set_lib (p_env st) (JObj (getUrlData loc)) JUndef \<rparr>"
  have c1: "consistent_lib st1" using assms by (simp add: st1_def consistent_lib_env)
  obtain d st2 where s: "sendMessageToTop_lib ''get-environment'' JUndef JUndef msgid thrown st1 = (d, st2)"
    by (cases "sendMessageToTop_lib ''get-environment'' JUndef JUndef msgid thrown st1")
  have c2: "consistent_lib st2"
    using consistent_lib_send[OF c1, of "''get-environment''" JUndef JUndef msgid thrown] s by simp
  have a: "consistent_lib (st2\<lparr> p_init_chain := x \<rparr>)" for x
    using c2 by (rule consistent_lib_cong) simp_all
  have b: "consistent_lib (run_init_chain_lib u x st2)" for u x
    using c2 by (rule consistent_lib_cong) simp_all
  show ?thesis
    unfolding collectData_lib_def Let_def st1_def[symmetric] s prod.case
    using a b by (simp split: option.splits)
qed

lemma consistent_lib_load: "consistent_lib (load_lib loc msgid thrown)"
proof -
  have c: "consistent_lib (collectData_lib loc msgid thrown initial_page)"
    by (intro consistent_lib_collectData consistent_lib_initial)
  show ?thesis
    unfolding load_lib_def Let_def
  proof (rule consistent_libI)
    let ?st = "collectData_lib loc msgid thrown initial_page"
    fix d show "settle_count_lib (?st\<lparr> p_listeners := p_listeners ?st @ [GlobalListener] \<rparr>) d \<le> 1"
      using consistent_libD(1)[OF c, of d] by (simp add: settle_count_lib_def)
  next
    let ?st = "collectData_lib loc msgid thrown initial_page"
    fix d s assume "(d, s) \<in> set (p_settled (?st\<lparr> p_listeners := p_listeners ?st @ [GlobalListener] \<rparr>))"
    then show "d < p_next_deferred (?st\<lparr> p_listeners := p_listeners ?st @ [GlobalListener] \<rparr>)"
      using consistent_libD(2)[OF c, of d s] by simp
  next
    let ?st = "collectData_lib loc msgid thrown initial_page"
    fix k v assume "p_calls (?st\<lparr> p_listeners := p_listeners ?st @ [GlobalListener] \<rparr>) k = Some v"
    then show "k < p_next_deferred (?st\<lparr> p_listeners := p_listeners ?st @ [GlobalListener] \<rparr>)"
      using consistent_libD(3)[OF c, of k v] by simp
  next
    let ?st = "collectData_lib loc msgid thrown initial_page"
    fix k assume "RequestListener k \<in> set (p_listeners (?st\<lparr> p_listeners := p_listeners ?st @ [GlobalListener] \<rparr>))"
    then have "RequestListener k \<in> set (p_listeners ?st)" by simp
    from consistent_libD(4,5)[OF c this]
    show "(\<exists>v. p_calls (?st\<lparr> p_listeners := p_listeners ?st @ [GlobalListener] \<rparr>) k = Some v \<and> \<not> rv_cleanedUp v)
        \<and> settle_count_lib (?st\<lparr> p_listeners := p_listeners ?st @ [GlobalListener] \<rparr>) k = 0"
      by (simp add: settle_count_lib_def)
  next
    let ?st = "collectData_lib loc msgid thrown initial_page"
    fix tid k assume "p_timers (?st\<lparr> p_listeners := p_listeners ?st @ [GlobalListener] \<rparr>) tid = Some k"
    then have "p_timers ?st tid = Some k" by simp
    from consistent_libD(6,7,8)[OF c this]
    show "(\<exists>v. p_calls (?st\<lparr> p_listeners := p_listeners ?st @ [GlobalListener] \<rparr>) k = Some v
             \<and> \<not> rv_cleanedUp v \<and> rv_timerId v = Some tid)
        \<and> settle_count_lib (?st\<lparr> p_listeners := p_listeners ?st @ [GlobalListener] \<rparr>) k = 0
        \<and> tid \<le> p_next_timer (?st\<lparr> p_listeners := p_listeners ?st @ [GlobalListener] \<rparr>)"
      by (simp add: settle_count_lib_def)
  qed
qed

lemma reachable_consistent_lib: "consistent_lib (run_lib json_parse acts (load_lib loc msgid thrown))"
  by (intro consistent_lib_run consistent_lib_load)

subsection \<open>Untrusted messages\<close>

lemma deliver_untrusted:
  "\<not> isTrustedEvent_lib st event \<Longrightarrow> deliver json_parse l event st = st"
  by (cases l) (simp_all add: request_listener_def messageHandler_lib_def split: option.splits)

lemma fold_untrusted:
  "\<not> isTrustedEvent_lib st event \<Longrightarrow>
   fold (\<lambda>l s. if l \<in> set (p_listeners s) then deliver json_parse l event s else s) ls st = st"
  by (induction ls) (simp_all add: deliver_untrusted)

lemma dispatch_untrusted: "\<not> isTrustedEvent_lib st event \<Longrightarrow> dispatch json_parse event st = st"
  unfolding dispatch_def by (rule fold_untrusted)

subsection \<open>Settlements only accumulate\<close>

lemma settled_lib_deliver:
  "\<exists>xs. p_settled (deliver json_parse l event st) = p_settled st @ xs"
  by (cases l) (auto simp: request_listener_def messageHandler_lib_def Let_def split: option.splits prod.splits)

lemma settled_lib_fold:
  "\<exists>xs. p_settled (fold (\<lambda>l s. if l \<in> set (p_listeners s) then deliver json_parse l event s else s) ls st)
         = p_settled st @ xs"
proof (induction ls arbitrary: st)
  case Nil
  then show ?case by simp
next
  case (Cons l ls)
  let ?s = "if l \<in> set (p_listeners st) then deliver json_parse l event st else st"
  from settled_lib_deliver[of json_parse l event st] obtain xs where a: "p_settled ?s = p_settled st @ xs"
    by (cases "l \<in> set (p_listeners st)") auto
  from Cons.IH[of ?s] obtain ys where
    "p_settled (fold (\<lambda>l s. if l \<in> set (p_listeners s) then deliver json_parse l event s else s) ls ?s)
       = p_settled ?s @ ys" by blast
  with a show ?case by simp
qed

lemma settled_lib_step: "\<exists>xs. p_settled (step_lib json_parse a st) = p_settled st @ xs"
proof (cases a)
  case (Send name payload opt msgid thrown)
  then show ?thesis
    by (cases "truthy (obj_get (p_env st) ''msghost'')"; cases thrown)
       (simp_all add: send_lib_missing send_lib_usable Let_def)
next
  case (Message event)
  then show ?thesis using settled_lib_fold[of json_parse event "p_listeners st" st] by (simp add: dispatch_def)
next
  case (TimerFires tid)
  then show ?thesis by (simp add: timer_fires_lib_def Let_def split: option.splits)
qed (simp_all add: ready_lib_def)

lemma settled_lib_run: "\<exists>xs. p_settled (run_lib json_parse acts st) = p_settled st @ xs"
proof (induction acts arbitrary: st)
  case Nil
  then show ?case by simp
next
  case (Cons a acts)
  from settled_lib_step[of json_parse a st] obtain xs where
    "p_settled (step_lib json_parse a st) = p_settled st @ xs" by blast
  moreover from Cons.IH[of "step_lib json_parse a st"] obtain ys where
    "p_settled (run_lib json_parse acts (step_lib json_parse a st)) = p_settled (step_lib json_parse a st) @ ys"
    by blast
  ultimately show ?case by simp
qed

lemma rejected_never_resolved_lib:
  assumes c: "consistent_lib st" and r: "rejections_lib st d = 1"
  shows "resolutions_lib (run_lib json_parse acts st) d = 0"
    and "rejections_lib (run_lib json_parse acts st) d = 1"
proof -
  from settled_lib_run[of json_parse acts st] obtain xs where
    x: "p_settled (run_lib json_parse acts st) = p_settled st @ xs" by blast
  then have m: "rejections_lib st d \<le> rejections_lib (run_lib json_parse acts st) d"
    by (simp add: rejections_lib_def)
  have "consistent_lib (run_lib json_parse acts st)" using c by (rule consistent_lib_run)
  from consistent_libD(1)[OF this, of d]
  have "resolutions_lib (run_lib json_parse acts st) d + rejections_lib (run_lib json_parse acts st) d \<le> 1"
    by (simp add: settle_count_lib_split)
  with m r show "resolutions_lib (run_lib json_parse acts st) d = 0"
    and "rejections_lib (run_lib json_parse acts st) d = 1" by simp_all
qed

lemma timer_fires_lib_rejects:
  assumes c: "consistent_lib st" and t: "p_timers st tid = Some k"
  shows "rejections_lib (timer_fires_lib tid st) k = 1"
    and "resolutions_lib (timer_fires_lib tid st) k = 0"
    and "RequestListener k \<notin> set (p_listeners (timer_fires_lib tid st))"
    and "p_timers (timer_fires_lib tid st) tid = None"
proof -
  from consistent_libD(6)[OF c t] obtain v where
    v: "p_calls st k = Some v" "\<not> rv_cleanedUp v" "rv_timerId v = Some tid" by blast
  let ?st1 = "st\<lparr> p_timers := (p_timers st)(tid := None) \<rparr>"
  have e: "timer_fires_lib tid st = settle_lib k (Reject (timeout_error_lib v)) (cleanup k ?st1)"
    using t v by (simp add: timer_fires_lib_def Let_def)
  from consistent_libD(7)[OF c t] have z: "settle_count_lib st k = 0" .
  then have "resolutions_lib st k = 0" "rejections_lib st k = 0" by (simp_all add: settle_count_lib_split)
  then show "rejections_lib (timer_fires_lib tid st) k = 1"
    and "resolutions_lib (timer_fires_lib tid st) k = 0"
    unfolding e by (simp_all add: rejections_lib_def resolutions_lib_def)
  have "p_calls ?st1 k = Some v" using v by simp
  from cleanup_own_listener[OF this v(2)]
  show "RequestListener k \<notin> set (p_listeners (timer_fires_lib tid st))" unfolding e by simp
  show "p_timers (timer_fires_lib tid st) tid = None"
    unfolding e using cleanup_timers[of k ?st1 tid] by (cases "p_timers (cleanup k ?st1) tid") auto
qed


subsection \<open>Initialisation\<close>

lemma set_lib_fresh: "obj_get (set_lib [] (JObj u) x) k = obj_get u k"
  by (simp add: set_lib_eq gadget_set_fresh)


lemma init_request_timeout_lib:
  "request_timeout_lib (st\<lparr> p_env := set_lib [] (JObj (getUrlData loc)) JUndef \<rparr>) JUndef = Fin 15000"
  using getUrlData_not_number[of loc "''requestTimeoutMs''"]
  by (simp add: request_timeout_lib_def set_lib_fresh split: jsval.splits)

lemma run_init_chain_lib_ready:
  "obj_get (p_env (run_init_chain_lib u s st)) ''isReady'' = JBool True"
  "p_proceeded (run_init_chain_lib u s st) = p_proceeded st @ p_waiting st"
  "p_waiting (run_init_chain_lib u s st) = []"
  by (cases s; simp add: run_init_chain_lib_def init_then_lib_def init_fail_lib_def
        collectData_then_lib_def Let_def trigger_lib_def obj_get_set split: prod.splits)+

lemma settle_lib_runs_init:
  assumes "p_init_chain st = Some (d, u)" "\<not> is_settled_lib st d"
  shows "settle_lib d s st =
           run_init_chain_lib u s (st\<lparr> p_settled := p_settled st @ [(d, s)], p_init_chain := None \<rparr>)"
  using assms by (simp add: settle_lib_def Let_def)

lemma settle_lib_init_ready:
  assumes "p_init_chain st = Some (d, u)" "\<not> is_settled_lib st d"
  shows "obj_get (p_env (settle_lib d s st)) ''isReady'' = JBool True"
    and "p_triggered (settle_lib d s st) = p_triggered st @ [(JStr ''ready'', JUndef)]"
    and "p_proceeded (settle_lib d s st) = p_proceeded st @ p_waiting st"
    and "p_waiting (settle_lib d s st) = []"
    and "p_init_chain (settle_lib d s st) = None"
  unfolding settle_lib_runs_init[OF assms] by (simp_all add: run_init_chain_lib_ready)

lemma settle_lib_plain:
  "p_init_chain st = None \<Longrightarrow> settle_lib d s st = st\<lparr> p_settled := p_settled st @ [(d, s)] \<rparr>"
  by (simp add: settle_lib_def Let_def)

lemma collectData_lib_unfold:
  "collectData_lib loc msgid thrown initial_page =
    (let urlData = getUrlData loc;
         st1 = initial_page\<lparr> p_env := set_lib [] (JObj urlData) JUndef \<rparr>;
         (d, st2) = sendMessageToTop_lib ''get-environment'' JUndef JUndef msgid thrown st1
     in case first_settlement_lib st2 d of
          None \<Rightarrow> st2\<lparr> p_init_chain := Some (d, urlData) \<rparr>
        | Some s \<Rightarrow> run_init_chain_lib urlData s st2)"
  by (simp add: collectData_lib_def Let_def initial_page_def)

lemma load_lib_pending:
  assumes "truthy (obj_get (getUrlData loc) ''msghost'')"
  shows "load_lib loc msgid None =
    (let e = set_lib [] (JObj (getUrlData loc)) JUndef
     in \<lparr> p_env = e,
          p_calls = [0 \<mapsto> \<lparr> rv_name = ''get-environment'', rv_msgid = msgid, rv_timeoutMs = Fin 15000,
                              rv_timerId = Some 1, rv_cleanedUp = False \<rparr>],
          p_listeners = [RequestListener 0, GlobalListener],
          p_timers = [1 \<mapsto> 0],
          p_next_timer = 1, p_next_deferred = 1, p_settled = [],
          p_posted = [(\<lparr> m_name = ''get-environment'', m_gid = obj_get e ''gid'',
                         m_origin = obj_get e ''url'', m_token = obj_get e ''token'',
                         m_place = obj_get e ''place'', m_payload = JUndef, m_callback = msgid \<rparr>,
                       obj_get (getUrlData loc) ''msghost'')],
          p_triggered = [], p_console = [], p_waiting = [], p_proceeded = [],
          p_init_chain = Some (0, getUrlData loc) \<rparr>)"
proof -
  let ?st1 = "initial_page\<lparr> p_env := set_lib [] (JObj (getUrlData loc)) JUndef \<rparr>"
  have u: "truthy (obj_get (p_env ?st1) ''msghost'')" using assms by (simp add: set_lib_fresh)
  show ?thesis
    unfolding load_lib_def collectData_lib_unfold Let_def send_lib_usable[OF u] init_request_timeout_lib
    by (simp add: registered_lib_def Let_def initial_page_def
        first_settlement_lib_def set_lib_fresh)
qed

lemma load_lib_failed:
  assumes "\<not> truthy (obj_get (getUrlData loc) ''msghost'') \<or> thrown \<noteq> None"
  shows "obj_get (p_env (load_lib loc msgid thrown)) ''isReady'' = JBool True"
    and "p_triggered (load_lib loc msgid thrown) = [(JStr ''ready'', JUndef)]"
    and "p_init_chain (load_lib loc msgid thrown) = None"
    and "p_posted (load_lib loc msgid thrown) = []"
    and "rejections_lib (load_lib loc msgid thrown) 0 = 1"
    and "p_listeners (load_lib loc msgid thrown) = [GlobalListener]"
    and "p_timers (load_lib loc msgid thrown) = Map.empty"
proof -
  define st1 where "st1 = initial_page\<lparr> p_env := set_lib [] (JObj (getUrlData loc)) JUndef \<rparr>"
  have n: "obj_get (p_env st1) ''msghost'' = obj_get (getUrlData loc) ''msghost''"
    by (simp add: st1_def set_lib_fresh)
  have i: "p_init_chain st1 = None" "p_next_deferred st1 = 0" "p_settled st1 = []" "p_triggered st1 = []"
    "p_posted st1 = []" "p_listeners st1 = []" "p_timers st1 = Map.empty" "p_calls st1 = Map.empty"
    "p_next_timer st1 = 0"
    by (simp_all add: st1_def initial_page_def)
  obtain d st2 where s: "sendMessageToTop_lib ''get-environment'' JUndef JUndef msgid thrown st1 = (d, st2)"
    by (cases "sendMessageToTop_lib ''get-environment'' JUndef JUndef msgid thrown st1")
  have "\<exists>x. d = 0 \<and> p_settled st2 = [(0, Reject x)] \<and> p_triggered st2 = [] \<and> p_init_chain st2 = None
      \<and> p_posted st2 = [] \<and> p_listeners st2 = [] \<and> p_timers st2 = Map.empty"
  proof (cases "truthy (obj_get (getUrlData loc) ''msghost'')")
    case False
    then have "\<not> truthy (obj_get (p_env st1) ''msghost'')" using n by simp
    then show ?thesis using s i by (auto simp: send_lib_missing settle_lib_plain)
  next
    case True
    then have u: "truthy (obj_get (p_env st1) ''msghost'')" using n by simp
    from True assms obtain e where e: "thrown = Some e" by auto
    have t: "request_timeout_lib st1 JUndef = Fin 15000" unfolding st1_def by (rule init_request_timeout_lib)
    show ?thesis using s i
      unfolding send_lib_usable[OF u] e t
      by (auto simp: Let_def registered_lib_def cleanup_def settle_lib_plain)
  qed
  then obtain x where f: "d = 0" "p_settled st2 = [(0, Reject x)]" "p_triggered st2 = []"
    "p_init_chain st2 = None" "p_posted st2 = []" "p_listeners st2 = []" "p_timers st2 = Map.empty" by blast
  have l: "load_lib loc msgid thrown =
      (run_init_chain_lib (getUrlData loc) (Reject x) st2)
        \<lparr> p_listeners := p_listeners (run_init_chain_lib (getUrlData loc) (Reject x) st2) @ [GlobalListener] \<rparr>"
    unfolding load_lib_def collectData_lib_unfold Let_def st1_def[symmetric] s prod.case
    by (simp add: first_settlement_lib_def f)
  show "obj_get (p_env (load_lib loc msgid thrown)) ''isReady'' = JBool True"
    and "p_triggered (load_lib loc msgid thrown) = [(JStr ''ready'', JUndef)]"
    and "p_init_chain (load_lib loc msgid thrown) = None"
    and "p_posted (load_lib loc msgid thrown) = []"
    and "rejections_lib (load_lib loc msgid thrown) 0 = 1"
    and "p_listeners (load_lib loc msgid thrown) = [GlobalListener]"
    and "p_timers (load_lib loc msgid thrown) = Map.empty"
    unfolding l using f by (simp_all add: run_init_chain_lib_ready rejections_lib_def)
qed

lemma load_lib_pending_facts:
  assumes u: "truthy (obj_get (getUrlData loc) ''msghost'')"
  shows "p_init_chain (load_lib loc msgid None) = Some (0, getUrlData loc)"
    and "p_settled (load_lib loc msgid None) = []"
    and "p_triggered (load_lib loc msgid None) = []"
    and "p_timers (load_lib loc msgid None) 1 = Some 0"
    and "p_calls (load_lib loc msgid None) 0 =
           Some \<lparr> rv_name = ''get-environment'', rv_msgid = msgid, rv_timeoutMs = Fin 15000,
                   rv_timerId = Some 1, rv_cleanedUp = False \<rparr>"
    and "p_listeners (load_lib loc msgid None) = [RequestListener 0, GlobalListener]"
    and "obj_get (p_env (load_lib loc msgid None)) k = obj_get (getUrlData loc) k"
    and "snd (hd (p_posted (load_lib loc msgid None))) = obj_get (getUrlData loc) ''msghost''"
  unfolding load_lib_pending[OF u] by (simp_all add: Let_def set_lib_fresh)

lemma init_timeout_ready_lib:
  assumes u: "truthy (obj_get (getUrlData loc) ''msghost'')"
  shows "obj_get (p_env (timer_fires_lib 1 (load_lib loc msgid None))) ''isReady'' = JBool True"
    and "p_triggered (timer_fires_lib 1 (load_lib loc msgid None)) = [(JStr ''ready'', JUndef)]"
    and "p_init_chain (timer_fires_lib 1 (load_lib loc msgid None)) = None"
    and "rejections_lib (timer_fires_lib 1 (load_lib loc msgid None)) 0 = 1"
proof -
  define st0 where "st0 = load_lib loc msgid None"
  note f = load_lib_pending_facts[OF u, of msgid, folded st0_def]
  define v where "v = \<lparr> rv_name = ''get-environment'', rv_msgid = msgid, rv_timeoutMs = Fin 15000,
                   rv_timerId = Some 1, rv_cleanedUp = False \<rparr>"
  define st2 where "st2 = cleanup 0 (st0\<lparr> p_timers := (p_timers st0)(1 := None) \<rparr>)"
  have e: "timer_fires_lib 1 st0 = settle_lib 0 (Reject (timeout_error_lib v)) st2"
    using f(4,5) by (simp add: timer_fires_lib_def Let_def v_def st2_def)
  have i: "p_init_chain st2 = Some (0, getUrlData loc)" "\<not> is_settled_lib st2 0" "p_triggered st2 = []"
    using f(1,2,3) by (simp_all add: st2_def is_settled_lib_def)
  have c: "consistent_lib st0" unfolding st0_def by (rule consistent_lib_load)
  from settle_lib_init_ready[OF i(1,2), of "Reject (timeout_error_lib v)"] i(3)
       timer_fires_lib_rejects(1)[OF c f(4)]
  show "obj_get (p_env (timer_fires_lib 1 (load_lib loc msgid None))) ''isReady'' = JBool True"
    and "p_triggered (timer_fires_lib 1 (load_lib loc msgid None)) = [(JStr ''ready'', JUndef)]"
    and "p_init_chain (timer_fires_lib 1 (load_lib loc msgid None)) = None"
    and "rejections_lib (timer_fires_lib 1 (load_lib loc msgid None)) 0 = 1"
    unfolding st0_def[symmetric] e by simp_all
qed

lemma parse_object: "js_prop raw k = JStr c \<Longrightarrow> parseMessageData json_parse raw = (raw, False)"
  by (cases raw) (simp_all add: parseMessageData_def)

lemma messageHandler_lib_callback:
  assumes "js_prop (ev_data event) ''callback'' = JStr c" "c \<noteq> []"
  shows "messageHandler_lib json_parse event st = st"
proof -
  have "truthy (js_prop (ev_data event) ''callback'')" using assms by simp
  then show ?thesis
    by (simp add: messageHandler_lib_def parse_object[OF assms(1)])
qed

lemma init_response_lib:
  assumes u: "truthy (obj_get (getUrlData loc) ''msghost'')"
    and tr: "isTrustedEvent_lib (load_lib loc msgid None) event"
    and cb: "js_prop (ev_data event) ''callback'' = JStr msgid" "msgid \<noteq> []"
  shows "dispatch json_parse event (load_lib loc msgid None) =
           run_init_chain_lib (getUrlData loc) (Resolve (js_prop (ev_data event) ''payload''))
             ((cleanup 0 (load_lib loc msgid None))
                \<lparr> p_settled := [(0, Resolve (js_prop (ev_data event) ''payload''))], p_init_chain := None \<rparr>)"
proof -
  define st0 where "st0 = load_lib loc msgid None"
  note f = load_lib_pending_facts[OF u, of msgid, folded st0_def]
  have t: "truthy (ev_data event)" using cb(1) by (cases "ev_data event") simp_all
  define st2 where "st2 = cleanup 0 st0"
  have i: "p_init_chain st2 = Some (0, getUrlData loc)" "\<not> is_settled_lib st2 0" "p_settled st2 = []"
    using f(1,2) by (simp_all add: st2_def is_settled_lib_def)
  have r: "request_listener json_parse 0 event st0 =
             settle_lib 0 (Resolve (js_prop (ev_data event) ''payload'')) st2"
    using f(5) tr[folded st0_def] t cb
    by (simp add: request_listener_def parse_object[OF cb(1)] st2_def)
  have d: "dispatch json_parse event st0 =
      (let s1 = request_listener json_parse 0 event st0
       in if GlobalListener \<in> set (p_listeners s1) then messageHandler_lib json_parse event s1 else s1)"
    by (simp add: dispatch_def f(6) Let_def)
  show ?thesis
    unfolding st0_def[symmetric] d Let_def messageHandler_lib_callback[OF cb] r
      settle_lib_runs_init[OF i(1,2)] st2_def[symmetric] i(3)
    by simp
qed

lemma init_response_ready_lib:
  assumes u: "truthy (obj_get (getUrlData loc) ''msghost'')"
    and tr: "isTrustedEvent_lib (load_lib loc msgid None) event"
    and cb: "js_prop (ev_data event) ''callback'' = JStr msgid" "msgid \<noteq> []"
  shows "obj_get (p_env (dispatch json_parse event (load_lib loc msgid None))) ''isReady'' = JBool True"
    and "p_triggered (dispatch json_parse event (load_lib loc msgid None)) = [(JStr ''ready'', JUndef)]"
    and "p_init_chain (dispatch json_parse event (load_lib loc msgid None)) = None"
    and "resolutions_lib (dispatch json_parse event (load_lib loc msgid None)) 0 = 1"
  unfolding init_response_lib[OF u tr cb]
  using load_lib_pending_facts(3)[OF u, of msgid]
  by (simp_all add: run_init_chain_lib_ready resolutions_lib_def)


lemma init_chain_lib_settle_None:
  "p_init_chain st = None \<Longrightarrow> p_init_chain (settle_lib d s st) = None"
  by (simp add: settle_lib_plain)

lemma init_chain_lib_deliver_None:
  "p_init_chain st = None \<Longrightarrow> p_init_chain (deliver json_parse l event st) = None"
  by (cases l)
     (auto simp: request_listener_def messageHandler_lib_def Let_def settle_lib_plain
        split: option.splits prod.splits)

lemma init_chain_lib_fold_None:
  "p_init_chain st = None \<Longrightarrow>
   p_init_chain (fold (\<lambda>l s. if l \<in> set (p_listeners s) then deliver json_parse l event s else s) ls st) = None"
  by (induction ls arbitrary: st) (simp_all add: init_chain_lib_deliver_None)

lemma init_chain_lib_step_None:
  "p_init_chain st = None \<Longrightarrow> p_init_chain (step_lib json_parse a st) = None"
proof (cases a)
  case (Send name payload opt msgid thrown)
  assume "p_init_chain st = None"
  then show ?thesis using Send
    by (cases "truthy (obj_get (p_env st) ''msghost'')"; cases thrown)
       (simp_all add: send_lib_missing send_lib_usable Let_def settle_lib_plain)
next
  case (Message event)
  assume "p_init_chain st = None"
  then show ?thesis using Message by (simp add: dispatch_def init_chain_lib_fold_None)
next
  case (TimerFires tid)
  assume "p_init_chain st = None"
  then show ?thesis using TimerFires
    by (simp add: timer_fires_lib_def Let_def settle_lib_plain split: option.splits)
qed (simp_all add: ready_lib_def)











text \<open>
  Claim C3.  A message whose source is not the top window, or whose origin is not a string
  equal to \<^verbatim>\<open>gadget.msghostOrigin\<close>, leaves the whole state of the bridge as it was: no
  Deferred is settled, no event is triggered, nothing is logged, and the registry and the
  environment are unchanged; so a run goes on as if the message had never arrived.  After
  \<^verbatim>\<open>collectData\<close> the origin compared with is the normalised \<^verbatim>\<open>msghost\<close> of the URL.
  In \<^verbatim>\<open>_lib/gadget.js\<close> the origin is compared with \<^verbatim>\<open>gadget.msghost\<close> itself; there a message
  that fails the test leaves the state as it was in every listener, those of the requests
  and \<^verbatim>\<open>messageHandler\<close>.
\<close>

theorem untrusted_message_has_no_effect:
  "(\<not> ev_source_is_top event \<or> \<not> is_string (ev_origin event)
      \<or> ev_origin event \<noteq> obj_get (env st) ''msghostOrigin'' \<longrightarrow>
        messageHandler json_parse event st = st
      \<and> (\<forall>d. resolutions (messageHandler json_parse event st) d = resolutions st d)
      \<and> triggered (messageHandler json_parse event st) = triggered st
      \<and> pendingRequests (messageHandler json_parse event st) = pendingRequests st
      \<and> env (messageHandler json_parse event st) = env st
      \<and> (\<forall>before later. st = run json_parse before st' \<longrightarrow>
            run json_parse (before @ Message event # later) st' = run json_parse (before @ later) st'))
   \<and> obj_get (env (collectData url_origin loc msgid thrown initial_bridge)) ''msghostOrigin'' =
       normalizeOrigin url_origin (loc_protocol loc) (obj_get (getUrlData loc) ''msghost'')
   \<and> (let st0 = collectData url_origin loc msgid thrown initial_bridge in
        \<not> ev_source_is_top event
        \<or> ev_origin event \<noteq> normalizeOrigin url_origin (loc_protocol loc) (obj_get (getUrlData loc) ''msghost'')
        \<longrightarrow> messageHandler json_parse event st0 = st0)
   \<and> (\<not> ev_source_is_top event
        \<or> \<not> strict_equals (ev_origin event) (obj_get (p_env pst) ''msghost'') \<longrightarrow>
          dispatch json_parse event pst = pst
        \<and> (\<forall>k. request_listener json_parse k event pst = pst)
        \<and> messageHandler_lib json_parse event pst = pst)"
proof -
  have 1: "\<not> ev_source_is_top event \<or> \<not> is_string (ev_origin event)
      \<or> ev_origin event \<noteq> obj_get (env st) ''msghostOrigin'' \<longrightarrow>
        messageHandler json_parse event st = st
      \<and> (\<forall>d. resolutions (messageHandler json_parse event st) d = resolutions st d)
      \<and> triggered (messageHandler json_parse event st) = triggered st
      \<and> pendingRequests (messageHandler json_parse event st) = pendingRequests st
      \<and> env (messageHandler json_parse event st) = env st
      \<and> (\<forall>before later. st = run json_parse before st' \<longrightarrow>
            run json_parse (before @ Message event # later) st' = run json_parse (before @ later) st')"
  proof
    assume "\<not> ev_source_is_top event \<or> \<not> is_string (ev_origin event)
      \<or> ev_origin event \<noteq> obj_get (env st) ''msghostOrigin''"
    then have "\<not> isTrustedEvent st event" by (auto simp: isTrustedEvent_def)
    then have e: "messageHandler json_parse event st = st" by (simp add: messageHandler_def)
    have "\<forall>before later. st = run json_parse before st' \<longrightarrow>
            run json_parse (before @ Message event # later) st' = run json_parse (before @ later) st'"
    proof (intro allI impI)
      fix before later assume b: "st = run json_parse before st'"
      have "run json_parse (before @ Message event # later) st' =
              run json_parse later (messageHandler json_parse event (run json_parse before st'))"
        by (simp add: run_def)
      also have "\<dots> = run json_parse later (run json_parse before st')"
        unfolding b[symmetric] e ..
      also have "\<dots> = run json_parse (before @ later) st'" by (simp add: run_def)
      finally show "run json_parse (before @ Message event # later) st' = run json_parse (before @ later) st'" .
    qed
    then show "messageHandler json_parse event st = st
      \<and> (\<forall>d. resolutions (messageHandler json_parse event st) d = resolutions st d)
      \<and> triggered (messageHandler json_parse event st) = triggered st
      \<and> pendingRequests (messageHandler json_parse event st) = pendingRequests st
      \<and> env (messageHandler json_parse event st) = env st
      \<and> (\<forall>before later. st = run json_parse before st' \<longrightarrow>
            run json_parse (before @ Message event # later) st' = run json_parse (before @ later) st')"
      unfolding e by simp
  qed
  have 2: "obj_get (env (collectData url_origin loc msgid thrown initial_bridge)) ''msghostOrigin'' =
       normalizeOrigin url_origin (loc_protocol loc) (obj_get (getUrlData loc) ''msghost'')"
    by (rule collectData_origin)
  have 3: "(let st0 = collectData url_origin loc msgid thrown initial_bridge in
        \<not> ev_source_is_top event
        \<or> ev_origin event \<noteq> normalizeOrigin url_origin (loc_protocol loc) (obj_get (getUrlData loc) ''msghost'')
        \<longrightarrow> messageHandler json_parse event st0 = st0)"
    unfolding Let_def by (auto simp: messageHandler_def isTrustedEvent_def collectData_origin)
  have 4: "\<not> ev_source_is_top event
        \<or> \<not> strict_equals (ev_origin event) (obj_get (p_env pst) ''msghost'') \<longrightarrow>
          dispatch json_parse event pst = pst
        \<and> (\<forall>k. request_listener json_parse k event pst = pst)
        \<and> messageHandler_lib json_parse event pst = pst"
  proof
    assume "\<not> ev_source_is_top event
        \<or> \<not> strict_equals (ev_origin event) (obj_get (p_env pst) ''msghost'')"
    then have u: "\<not> isTrustedEvent_lib pst event" by (auto simp: isTrustedEvent_lib_def)
    from dispatch_untrusted[OF u] deliver_untrusted[OF u, of json_parse "RequestListener k" for k]
         deliver_untrusted[OF u, of json_parse GlobalListener]
    show "dispatch json_parse event pst = pst
        \<and> (\<forall>k. request_listener json_parse k event pst = pst)
        \<and> messageHandler_lib json_parse event pst = pst"
      by simp
  qed
  from 1 2 3 4 show ?thesis by (intro conjI)
qed

theorem untrusted_message_has_no_effect_witness:
  "ev_origin \<lparr> ev_source_is_top = True, ev_origin = JStr ''https://evil.example.net'',
       ev_data = JObj [(''callback'', JStr ''id-0''), (''payload'', JObj [(''token'', JStr ''x'')])] \<rparr>
     \<noteq> obj_get (env example_page) ''msghostOrigin''
   \<and> pendingRequests example_page ''id-0'' \<noteq> None
   \<and> messageHandler (\<lambda>s. None)
       \<lparr> ev_source_is_top = True, ev_origin = JStr ''https://evil.example.net'',
          ev_data = JObj [(''callback'', JStr ''id-0''), (''payload'', JObj [(''token'', JStr ''x'')])] \<rparr>
       example_page = example_page"
proof -
  let ?event = "\<lparr> ev_source_is_top = True, ev_origin = JStr ''https://evil.example.net'',
       ev_data = JObj [(''callback'', JStr ''id-0''), (''payload'', JObj [(''token'', JStr ''x'')])] \<rparr>"
  have o: "ev_origin ?event \<noteq> obj_get (env example_page) ''msghostOrigin''"
    by (simp add: example_page_eq obj_get_def)
  have p: "pendingRequests example_page ''id-0'' \<noteq> None" by (simp add: example_page_eq)
  from untrusted_message_has_no_effect[of ?event example_page "\<lambda>s. None" initial_bridge
         example_url_origin example_location "''id-0''" None]
  have "\<not> ev_source_is_top ?event \<or> \<not> is_string (ev_origin ?event)
      \<or> ev_origin ?event \<noteq> obj_get (env example_page) ''msghostOrigin'' \<longrightarrow>
        messageHandler (\<lambda>s. None) ?event example_page = example_page"
    by blast
  with o p show ?thesis by blast
qed

end
